theory Spec2Isabelle
  imports Complex_Main "HOL-Library.Word" "HOL-Library.Signed_Division"
begin

section \<open>Floating-point values\<close>

text \<open>
  The decoder computes with \<^verbatim>\<open>float\<close> and \<^verbatim>\<open>double\<close>. Both are idealised here as
  the reals extended with one not-a-number element: arithmetic is exact (no rounding, no
  infinities) and not-a-number propagates through every operation. \<^verbatim>\<open>std::isnan\<close> is the
  test for that element.
\<close>

datatype float = NaN | Fin real

fun isnan :: "float \<Rightarrow> bool" where
  "isnan NaN = True"
| "isnan (Fin _) = False"

fun fmul :: "float \<Rightarrow> float \<Rightarrow> float" where
  "fmul (Fin a) (Fin b) = Fin (a * b)"
| "fmul _ _ = NaN"

fun fadd :: "float \<Rightarrow> float \<Rightarrow> float" where
  "fadd (Fin a) (Fin b) = Fin (a + b)"
| "fadd _ _ = NaN"

fun fneg :: "float \<Rightarrow> float" where
  "fneg (Fin a) = Fin (- a)"
| "fneg NaN = NaN"

fun fcos :: "float \<Rightarrow> float" where
  "fcos (Fin a) = Fin (cos a)"
| "fcos NaN = NaN"

fun fsin :: "float \<Rightarrow> float" where
  "fsin (Fin a) = Fin (sin a)"
| "fsin NaN = NaN"

text \<open>The comparison \<^verbatim>\<open><\<close>: false as soon as one side is not a number.\<close>

fun fless :: "float \<Rightarrow> float \<Rightarrow> bool" where
  "fless (Fin a) (Fin b) = (a < b)"
| "fless _ _ = False"

text \<open>\<^verbatim>\<open>std::min(a, b)\<close> is \<^verbatim>\<open>(b < a) ? b : a\<close>.\<close>

definition std_min :: "float \<Rightarrow> float \<Rightarrow> float" where
  "std_min a b = (if fless b a then b else a)"

definition kNaNF :: float where
  "kNaNF = NaN"

definition range_factor :: float where
  "range_factor = Fin (1 / 1000)"

text \<open>Conversion of the unsigned integers read from a packet to floating point.\<close>

definition float_of_word :: "'a::len word \<Rightarrow> float" where
  "float_of_word w = Fin (real (unat w))"


section \<open>Packets and the wire layout\<close>

text \<open>
  A \<^verbatim>\<open>PacketMsg\<close> carries one field, the byte vector \<^verbatim>\<open>buf\<close>. The constants
  \<^verbatim>\<open>columns_per_buffer\<close> and \<^verbatim>\<open>pixels_per_column\<close> and the accessors \<^verbatim>\<open>nth_col\<close>,
  \<^verbatim>\<open>col_valid\<close>, \<^verbatim>\<open>col_h_angle\<close>, \<^verbatim>\<open>nth_px\<close>, \<^verbatim>\<open>px_range\<close> and
  \<^verbatim>\<open>px_reflectivity\<close> come from the header \<^verbatim>\<open>ouster/os1_packet.h\<close>, which is not among
  the sources; they are parameters of the model. The accessors take a raw
  \<^verbatim>\<open>const uint8_t*\<close>: a pointer is modelled by the bytes it points at. \<^verbatim>\<open>packet_bytes\<close> is
  the size of a well-formed lidar packet, that is, the number of bytes the accessors reach
  when every column of a packet is read.
\<close>

type_synonym byte = "8 word"

type_synonym PacketMsg = "byte list"

record layout =
  columns_per_buffer :: nat
  pixels_per_column :: nat
  packet_bytes :: nat
  nth_col :: "nat \<Rightarrow> byte list \<Rightarrow> byte list"
  col_valid :: "byte list \<Rightarrow> 32 word"
  col_h_angle :: "byte list \<Rightarrow> float"
  nth_px :: "nat \<Rightarrow> byte list \<Rightarrow> byte list"
  px_range :: "byte list \<Rightarrow> 32 word"
  px_reflectivity :: "byte list \<Rightarrow> 16 word"


section \<open>Faults\<close>

text \<open>
  Where the C++ has undefined behaviour the model returns a fault: a read or write outside
  a buffer, a vector or the image, and an integer division by zero. A call that does not
  return at all is the value \<open>None\<close>.
\<close>

datatype fault = OutOfBounds | DivideByZero

fun for_loop :: "nat list \<Rightarrow> (nat \<Rightarrow> 'a \<Rightarrow> (fault + 'a) option) \<Rightarrow> 'a \<Rightarrow> (fault + 'a) option" where
  "for_loop [] body a = Some (Inr a)"
| "for_loop (i # js) body a =
     (case body i a of
        None \<Rightarrow> None
      | Some (Inl e) \<Rightarrow> Some (Inl e)
      | Some (Inr a') \<Rightarrow> for_loop js body a')"


section \<open>The range image\<close>

text \<open>
  The image is a \<^verbatim>\<open>cv::Mat\<close> of type \<^verbatim>\<open>CV_32FC3\<close>: \<open>rows\<close> by \<open>cols\<close> pixels of three
  floats [range, reflectivity, azimuth], stored row by row; \<open>data\<close> maps the offset
  \<open>r * cols + c\<close> to the pixel at row \<open>r\<close> and column \<open>c\<close>.

  \<^verbatim>\<open>cv::Scalar(v0)\<close> is the four-vector \<open>(v0, 0, 0, 0)\<close>, and the constructor
  \<^verbatim>\<open>cv::Mat(rows, cols, type, s)\<close> sets channel \<open>k\<close> of every pixel to component \<open>k\<close>
  of \<open>s\<close>.
\<close>

type_synonym Vec3f = "float \<times> float \<times> float"

record Mat =
  rows :: nat
  cols :: nat
  data :: "nat \<Rightarrow> Vec3f"

definition Scalar :: "float \<Rightarrow> Vec3f" where
  "Scalar v0 = (v0, Fin 0, Fin 0)"

definition Mat_init :: "nat \<Rightarrow> nat \<Rightarrow> Vec3f \<Rightarrow> Mat" where
  "Mat_init r c s = \<lparr>rows = r, cols = c, data = (\<lambda>_. s)\<rparr>"

definition at_get :: "Mat \<Rightarrow> nat \<Rightarrow> nat \<Rightarrow> Vec3f" where
  "at_get img r c = data img (r * cols img + c)"

text \<open>\<^verbatim>\<open>image.at<cv::Vec3f>(r, c) = v\<close>; the access is unchecked in the source.\<close>

definition at_put :: "Mat \<Rightarrow> nat \<Rightarrow> nat \<Rightarrow> Vec3f \<Rightarrow> fault + Mat" where
  "at_put img r c v =
     (if r < rows img \<and> c < cols img
      then Inr (img\<lparr>data := (data img)(r * cols img + c := v)\<rparr>)
      else Inl OutOfBounds)"


section \<open>Configuration, calibration and decoder state\<close>

record OusterOS1Config =
  min_range :: float
  max_range :: float
  image_width :: int
  organized :: bool
  full_sweep :: bool

record SensorInfo =
  beam_altitude_angles :: "float list"
  beam_azimuth_angles :: "float list"

text \<open>
  The members \<^verbatim>\<open>config_\<close>, \<^verbatim>\<open>buffer_\<close> and \<^verbatim>\<open>info_\<close> of the decoder (a name
  cannot end in an underscore here).
\<close>

record Decoder =
  configM :: OusterOS1Config
  bufferM :: "PacketMsg list"
  infoM :: SensorInfo


section \<open>Building the image\<close>

text \<open>
  The body of the beam loop of \<^verbatim>\<open>LidarPacketCb\<close>: one pixel of a valid column.
  \<open>az\<close> is \<^verbatim>\<open>info_.beam_azimuth_angles\<close>, indexed without a check.
\<close>

definition px_body :: "layout \<Rightarrow> float list \<Rightarrow> byte list \<Rightarrow> nat \<Rightarrow> float \<Rightarrow> nat \<Rightarrow> Mat \<Rightarrow> fault + Mat" where
  "px_body L az col_buf col theta0 ipx img =
     (let px_buf = nth_px L ipx col_buf;
          range = px_range L px_buf
      in if ipx < length az
         then at_put img ipx col
                (fmul (float_of_word range) range_factor,
                 float_of_word (px_reflectivity L px_buf),
                 fadd theta0 (az ! ipx))
         else Inl OutOfBounds)"

text \<open>
  \<^verbatim>\<open>for (uint8_t ipx = 0; ipx < pixels_per_column; ipx++)\<close>: the counter is eight bits wide
  and wraps from 255 to 0, so the loop only ends when \<open>pixels_per_column \<le> 255\<close>.
\<close>

partial_function (option) px_loop ::
  "layout \<Rightarrow> float list \<Rightarrow> byte list \<Rightarrow> nat \<Rightarrow> float \<Rightarrow> 8 word \<Rightarrow> Mat \<Rightarrow> (fault + Mat) option" where
  "px_loop L az col_buf col theta0 ipx img =
     (if unat ipx < pixels_per_column L
      then (case px_body L az col_buf col theta0 (unat ipx) img of
              Inl e \<Rightarrow> Some (Inl e)
            | Inr img' \<Rightarrow> px_loop L az col_buf col theta0 (ipx + 1) img')
      else Some (Inr img))"

text \<open>The body of the column loop: invalid columns are dropped.\<close>

definition col_body :: "layout \<Rightarrow> float list \<Rightarrow> byte list \<Rightarrow> nat \<Rightarrow> nat \<Rightarrow> Mat \<Rightarrow> (fault + Mat) option" where
  "col_body L az packet_buf ibuf icol img =
     (let col_buf = nth_col L icol packet_buf;
          valid = (col_valid L col_buf = 0xffffffff)
      in if \<not> valid then Some (Inr img)
         else let col = ibuf * columns_per_buffer L + icol;
                  theta0 = col_h_angle L col_buf
              in px_loop L az col_buf col theta0 0 img)"

text \<open>
  The body of the packet loop. The source takes \<^verbatim>\<open>packet.buf.data()\<close> and reads every
  column through it without looking at \<^verbatim>\<open>packet.buf.size()\<close>; on a buffer shorter than a
  lidar packet these reads leave the buffer.
\<close>

definition packet_body :: "layout \<Rightarrow> float list \<Rightarrow> PacketMsg list \<Rightarrow> nat \<Rightarrow> Mat \<Rightarrow> (fault + Mat) option" where
  "packet_body L az buffer ibuf img =
     (let packet_buf = buffer ! ibuf
      in if length packet_buf < packet_bytes L then Some (Inl OutOfBounds)
         else for_loop [0..<columns_per_buffer L] (col_body L az packet_buf ibuf) img)"

definition build_image :: "layout \<Rightarrow> float list \<Rightarrow> PacketMsg list \<Rightarrow> (fault + Mat) option" where
  "build_image L az buffer =
     (let curr_width = length buffer * columns_per_buffer L;
          img = Mat_init (pixels_per_column L) curr_width (Scalar kNaNF)
      in for_loop [0..<length buffer] (packet_body L az buffer) img)"


section \<open>Projection to a point cloud\<close>

record PointT =
  p_x :: float
  p_y :: float
  p_z :: float
  p_intensity :: float

record CloudT =
  points :: "PointT list"
  width :: nat
  height :: nat

text \<open>
  The body of the column loop of \<^verbatim>\<open>ToCloud\<close>: \<open>v\<close> is the pixel
  [range, reflectivity, azimuth], \<open>pts\<close> is \<^verbatim>\<open>cloud.points\<close>.
\<close>

definition cloud_cell :: "bool \<Rightarrow> float \<Rightarrow> float \<Rightarrow> Vec3f \<Rightarrow> PointT list \<Rightarrow> PointT list" where
  "cloud_cell org cos_phi sin_phi v pts =
     (case v of (v0, v1, v2) \<Rightarrow>
        if isnan v0
        then (if org
              then pts @ [\<lparr>p_x = kNaNF, p_y = kNaNF, p_z = kNaNF, p_intensity = kNaNF\<rparr>]
              else pts)
        else (let theta = v2;
                  d = v0;
                  x = fmul (fmul d cos_phi) (fcos theta);
                  y = fmul (fmul d cos_phi) (fsin theta);
                  z = fmul d sin_phi
              in pts @ [\<lparr>p_x = x, p_y = fneg y, p_z = z, p_intensity = v1\<rparr>]))"

fun cloud_cols :: "Mat \<Rightarrow> bool \<Rightarrow> float \<Rightarrow> float \<Rightarrow> nat \<Rightarrow> nat list \<Rightarrow> PointT list \<Rightarrow> PointT list" where
  "cloud_cols img org cos_phi sin_phi r [] pts = pts"
| "cloud_cols img org cos_phi sin_phi r (c # cs) pts =
     cloud_cols img org cos_phi sin_phi r cs (cloud_cell org cos_phi sin_phi (at_get img r c) pts)"

text \<open>The row loop; \<^verbatim>\<open>altitude_angles[r]\<close> is read without a check.\<close>

fun cloud_rows :: "Mat \<Rightarrow> float list \<Rightarrow> bool \<Rightarrow> nat list \<Rightarrow> PointT list \<Rightarrow> fault + PointT list" where
  "cloud_rows img altitude_angles org [] pts = Inr pts"
| "cloud_rows img altitude_angles org (r # rs) pts =
     (if r < length altitude_angles
      then (let phi = altitude_angles ! r;
                cos_phi = fcos phi;
                sin_phi = fsin phi
            in cloud_rows img altitude_angles org rs
                 (cloud_cols img org cos_phi sin_phi r [0..<cols img] pts))
      else Inl OutOfBounds)"

definition ToCloud :: "Mat \<Rightarrow> float list \<Rightarrow> bool \<Rightarrow> fault + CloudT" where
  "ToCloud img altitude_angles org =
     (case cloud_rows img altitude_angles org [0..<rows img] [] of
        Inl e \<Rightarrow> Inl e
      | Inr pts \<Rightarrow>
          Inr (if org
               then \<lparr>points = pts, width = cols img, height = rows img\<rparr>
               else \<lparr>points = pts, width = length pts, height = 1\<rparr>))"


section \<open>The packet callback\<close>

text \<open>What one completed sweep publishes: the image with its camera info, and the cloud.\<close>

record CameraInfo =
  cinfo_height :: nat
  cinfo_width :: nat
  cinfo_D :: "float list"

record Published =
  image_msg :: Mat
  cinfo_msg :: CameraInfo
  cloud_msg :: CloudT

text \<open>
  \<^verbatim>\<open>curr_width < config_.image_width\<close> compares a \<^verbatim>\<open>size_t\<close> with an \<^verbatim>\<open>int\<close>: the
  \<^verbatim>\<open>int\<close> is converted to the unsigned 64-bit type first, so a negative width \<open>w\<close> counts
  as \<open>2 ^ 64 + w\<close>. Buffer sizes and column counts themselves are natural numbers here;
  they stay far below the limits of \<^verbatim>\<open>size_t\<close> and \<^verbatim>\<open>int\<close>.
\<close>

definition size_less_int :: "nat \<Rightarrow> int \<Rightarrow> bool" where
  "size_less_int n w = (if w < 0 then int n < 2 ^ 64 + w else int n < w)"

definition LidarPacketCb :: "layout \<Rightarrow> Decoder \<Rightarrow> PacketMsg \<Rightarrow> (fault + Decoder \<times> Published option) option" where
  "LidarPacketCb L s packet_msg =
     (let buffer = bufferM s @ [packet_msg];
          curr_width = length buffer * columns_per_buffer L
      in if size_less_int curr_width (image_width (configM s))
         then Some (Inr (s\<lparr>bufferM := buffer\<rparr>, None))
         else (case build_image L (beam_azimuth_angles (infoM s)) buffer of
                 None \<Rightarrow> None
               | Some (Inl e) \<Rightarrow> Some (Inl e)
               | Some (Inr img) \<Rightarrow>
                   (let cinfo = \<lparr>cinfo_height = rows img, cinfo_width = cols img,
                                 cinfo_D = beam_altitude_angles (infoM s)\<rparr>
                    in case ToCloud img (cinfo_D cinfo) (organized (configM s)) of
                         Inl e \<Rightarrow> Some (Inl e)
                       | Inr cloud \<Rightarrow>
                           Some (Inr (s\<lparr>bufferM := []\<rparr>,
                                      Some \<lparr>image_msg = img, cinfo_msg = cinfo, cloud_msg = cloud\<rparr>)))))"


section \<open>The configuration callback\<close>

text \<open>
  \<^verbatim>\<open>ConfigCb\<close> normalises the incoming configuration in place, stores it, clears the
  buffer and reserves room for the next sweep. The division is the truncating division of
  C++ and is undefined for a zero divisor. \<^verbatim>\<open>buffer_.reserve(n)\<close> takes a \<^verbatim>\<open>size_t\<close>: a
  negative width is converted to a value above \<^verbatim>\<open>max_size()\<close> and the call throws
  \<^verbatim>\<open>std::length_error\<close>, after the configuration has been stored and the buffer cleared.
  The result is the new decoder state and the exception, if any, that ended the call. The
  subscriptions and publishers set up on the first call are left out.
\<close>

datatype exn = length_error

definition normalize :: "layout \<Rightarrow> OusterOS1Config \<Rightarrow> OusterOS1Config" where
  "normalize L config =
     (let config1 = config\<lparr>min_range := std_min (min_range config) (max_range config)\<rparr>;
          config2 = config1\<lparr>image_width := image_width config1 sdiv int (columns_per_buffer L)\<rparr>
      in config2\<lparr>image_width := image_width config2 * int (columns_per_buffer L)\<rparr>)"

definition ConfigCb :: "layout \<Rightarrow> Decoder \<Rightarrow> OusterOS1Config \<Rightarrow> fault + Decoder \<times> exn option" where
  "ConfigCb L s config =
     (if columns_per_buffer L = 0 then Inl DivideByZero
      else (let config' = normalize L config;
                s' = s\<lparr>configM := config', bufferM := []\<rparr>
            in Inr (s', if image_width (configM s') < 0 then Some length_error else None)))"


section \<open>What the image builder computes\<close>

text \<open>
  The pixel written for beam \<open>ipx\<close> of a valid column, the validity test of a column, and
  both for the column with global index \<open>c\<close> of a buffered sweep.
\<close>

definition px_value :: "layout \<Rightarrow> float list \<Rightarrow> byte list \<Rightarrow> nat \<Rightarrow> Vec3f" where
  "px_value L az col_buf ipx =
     (fmul (float_of_word (px_range L (nth_px L ipx col_buf))) range_factor,
      float_of_word (px_reflectivity L (nth_px L ipx col_buf)),
      fadd (col_h_angle L col_buf) (az ! ipx))"

definition column_valid :: "layout \<Rightarrow> PacketMsg \<Rightarrow> nat \<Rightarrow> bool" where
  "column_valid L packet_buf icol \<longleftrightarrow> col_valid L (nth_col L icol packet_buf) = 0xffffffff"

definition cell_value :: "layout \<Rightarrow> float list \<Rightarrow> PacketMsg list \<Rightarrow> nat \<Rightarrow> nat \<Rightarrow> Vec3f" where
  "cell_value L az buffer r c =
     px_value L az (nth_col L (c mod columns_per_buffer L) (buffer ! (c div columns_per_buffer L))) r"

definition cell_valid :: "layout \<Rightarrow> PacketMsg list \<Rightarrow> nat \<Rightarrow> bool" where
  "cell_valid L buffer c \<longleftrightarrow>
     column_valid L (buffer ! (c div columns_per_buffer L)) (c mod columns_per_buffer L)"


section \<open>What the projector computes\<close>

text \<open>
  The placeholder of an empty cell, the point of a non-empty cell under altitude \<open>phi\<close>,
  the points one cell adds to the cloud, the cells of an image in scan order (row by row),
  and the test for an empty cell.
\<close>

definition nan_point :: PointT where
  "nan_point = \<lparr>p_x = kNaNF, p_y = kNaNF, p_z = kNaNF, p_intensity = kNaNF\<rparr>"

definition project :: "float \<Rightarrow> Vec3f \<Rightarrow> PointT" where
  "project phi v =
     \<lparr>p_x = fmul (fmul (fst v) (fcos phi)) (fcos (snd (snd v))),
      p_y = fneg (fmul (fmul (fst v) (fcos phi)) (fsin (snd (snd v)))),
      p_z = fmul (fst v) (fsin phi),
      p_intensity = fst (snd v)\<rparr>"

definition cell_points :: "bool \<Rightarrow> float \<Rightarrow> Vec3f \<Rightarrow> PointT list" where
  "cell_points org phi v =
     (if isnan (fst v) then (if org then [nan_point] else []) else [project phi v])"

definition scan_order :: "Mat \<Rightarrow> (nat \<times> nat) list" where
  "scan_order img = List.product [0..<rows img] [0..<cols img]"

definition is_empty_cell :: "Mat \<Rightarrow> nat \<times> nat \<Rightarrow> bool" where
  "is_empty_cell img rc = isnan (fst (at_get img (fst rc) (snd rc)))"


section \<open>Decodable sweeps\<close>

text \<open>
  The conditions under which a buffered sweep can be decoded without a fault: the layout
  constants are usable (a positive number of columns per packet, at most 255 beams), the
  calibration has an angle for every beam, and every packet has the full size.
\<close>

definition sensor_ok :: "layout \<Rightarrow> SensorInfo \<Rightarrow> bool" where
  "sensor_ok L info \<longleftrightarrow>
     0 < columns_per_buffer L \<and> pixels_per_column L \<le> 255
     \<and> pixels_per_column L \<le> length (beam_altitude_angles info)
     \<and> pixels_per_column L \<le> length (beam_azimuth_angles info)"

definition packets_ok :: "layout \<Rightarrow> PacketMsg list \<Rightarrow> bool" where
  "packets_ok L ps \<longleftrightarrow> list_all (\<lambda>p. packet_bytes L \<le> length p) ps"

text \<open>The rounding the specification asks for: down to the nearest multiple of \<open>n\<close>.\<close>

definition round_down_to_multiple :: "nat \<Rightarrow> int \<Rightarrow> int" where
  "round_down_to_multiple n w = (w div int n) * int n"


section \<open>Runs of the two callbacks\<close>

text \<open>
  The transport calls the two callbacks one at a time. A run feeds a list of events to the
  decoder and collects what is published, in order. A run ends with the first fault. An
  exception that ends \<^verbatim>\<open>ConfigCb\<close> is taken to be caught by its caller: the run goes on from
  the state the callback left.
\<close>

datatype event = Packet PacketMsg | Reconfigure OusterOS1Config

fun run :: "layout \<Rightarrow> Decoder \<Rightarrow> event list \<Rightarrow> (fault + Decoder \<times> Published list) option" where
  "run L s [] = Some (Inr (s, []))"
| "run L s (Packet p # evs) =
     (case LidarPacketCb L s p of
        None \<Rightarrow> None
      | Some (Inl e) \<Rightarrow> Some (Inl e)
      | Some (Inr (s', out)) \<Rightarrow>
          (case run L s' evs of
             None \<Rightarrow> None
           | Some (Inl e) \<Rightarrow> Some (Inl e)
           | Some (Inr (s'', pubs)) \<Rightarrow>
               Some (Inr (s'', (case out of None \<Rightarrow> [] | Some pub \<Rightarrow> [pub]) @ pubs))))"
| "run L s (Reconfigure config # evs) =
     (case ConfigCb L s config of
        Inl e \<Rightarrow> Some (Inl e)
      | Inr (s', _) \<Rightarrow> run L s' evs)"

text \<open>
  The state between two callbacks: the stored width is a multiple of \<open>columns_per_buffer\<close>;
  under a positive width the buffered columns are fewer than the width; under width 0 the
  buffer is empty.
\<close>

definition sweep_inv :: "layout \<Rightarrow> Decoder \<Rightarrow> bool" where
  "sweep_inv L s \<longleftrightarrow>
     int (columns_per_buffer L) dvd image_width (configM s)
     \<and> (if 0 < image_width (configM s)
        then int (length (bufferM s) * columns_per_buffer L) < image_width (configM s)
        else if image_width (configM s) = 0 then bufferM s = [] else True)"


section \<open>A small instance\<close>

text \<open>
  A concrete layout on which the definitions can be evaluated: two columns per packet, two
  beams per column, eight bytes per packet. A column is the four bytes
  [encoder ticks, beam 0, beam 1, validity]; it is valid when its last byte is \<open>0xff\<close>. The
  byte of a beam is read both as its range and as its reflectivity. In the packet
  \<open>demo_packet\<close> column 0 is valid and column 1 is not.
\<close>

definition first_byte :: "byte list \<Rightarrow> byte" where
  "first_byte bs = (case bs of [] \<Rightarrow> 0 | b # _ \<Rightarrow> b)"

definition demo_layout :: layout where
  "demo_layout =
     \<lparr>columns_per_buffer = 2, pixels_per_column = 2, packet_bytes = 8,
      nth_col = (\<lambda>n buf. drop (4 * n) buf),
      col_valid = (\<lambda>cb. if first_byte (drop 3 cb) = 0xff then 0xffffffff else 0),
      col_h_angle = (\<lambda>cb. Fin (real (unat (first_byte cb)))),
      nth_px = (\<lambda>n cb. drop (Suc n) cb),
      px_range = (\<lambda>pb. word_of_nat (unat (first_byte pb))),
      px_reflectivity = (\<lambda>pb. word_of_nat (unat (first_byte pb)))\<rparr>"

definition demo_packet :: PacketMsg where
  "demo_packet = [10, 20, 30, 0xff, 40, 50, 60, 0]"

definition demo_info :: SensorInfo where
  "demo_info = \<lparr>beam_altitude_angles = [Fin 0, Fin 0], beam_azimuth_angles = [Fin 0, Fin 0]\<rparr>"

definition demo_config :: OusterOS1Config where
  "demo_config = \<lparr>min_range = Fin 0, max_range = Fin 100, image_width = 4,
                   organized = False, full_sweep = False\<rparr>"

definition demo_decoder :: Decoder where
  "demo_decoder = \<lparr>configM = demo_config, bufferM = [], infoM = demo_info\<rparr>"

text \<open>
  Decoders that hold one full-size packet, hold one empty packet, store a negative width,
  and store the width 0.
\<close>

definition demo_decoder1 :: Decoder where
  "demo_decoder1 = demo_decoder\<lparr>bufferM := [demo_packet]\<rparr>"

definition demo_decoder_short :: Decoder where
  "demo_decoder_short = demo_decoder\<lparr>bufferM := [[]]\<rparr>"

definition demo_decoder_neg :: Decoder where
  "demo_decoder_neg = demo_decoder\<lparr>configM := demo_config\<lparr>image_width := - 2\<rparr>\<rparr>"

definition demo_decoder_zero :: Decoder where
  "demo_decoder_zero = demo_decoder\<lparr>configM := demo_config\<lparr>image_width := 0\<rparr>\<rparr>"

text \<open>
  The instance with sixteen columns per packet and a sweep of 1024 columns; the decoder
  holds \<open>n\<close> packets.
\<close>

definition demo_layout16 :: layout where
  "demo_layout16 = demo_layout\<lparr>columns_per_buffer := 16, packet_bytes := 64\<rparr>"

definition demo_packet16 :: PacketMsg where
  "demo_packet16 = replicate 64 0"

definition demo_decoder16 :: "nat \<Rightarrow> Decoder" where
  "demo_decoder16 n = demo_decoder\<lparr>configM := demo_config\<lparr>image_width := 1024\<rparr>,
                                     bufferM := replicate n demo_packet16\<rparr>"

text \<open>
  A one-cell image: range 10, reflectivity 5, azimuth \<open>\<pi>/2\<close>. A two-by-two image
  with one empty cell, at row 0 and column 1.
\<close>

definition demo_cell_image :: Mat where
  "demo_cell_image = Mat_init 1 1 (Fin 10, Fin 5, Fin (pi / 2))"

definition demo_image :: Mat where
  "demo_image = \<lparr>rows = 2, cols = 2,
                  data = (\<lambda>i. if i = 1 then Scalar kNaNF else (Fin 10, Fin 5, Fin 0))\<rparr>"


section \<open>Properties of the image builder\<close>

lemma index_inj:
  fixes r c r' c' w :: nat
  assumes "c < w" "c' < w" "r * w + c = r' * w + c'"
  shows "r = r' \<and> c = c'"
proof -
  have a: "(r * w + c) div w = r" using assms(1) by simp
  have b: "(r' * w + c') div w = r'" using assms(2) by simp
  from a b assms(3) have "r = r'" by simp
  with assms(3) show ?thesis by simp
qed

lemma at_put_Inr:
  assumes "at_put img r c v = Inr img'"
  shows "rows img' = rows img" "cols img' = cols img" "r < rows img" "c < cols img"
  using assms by (auto simp: at_put_def split: if_splits)

lemma at_get_at_put:
  assumes "at_put img r c v = Inr img'" "c' < cols img"
  shows "at_get img' r' c' = (if r' = r \<and> c' = c then v else at_get img r' c')"
proof -
  from assms(1) have c: "c < cols img" and d: "data img' = (data img)(r * cols img + c := v)"
    and e: "cols img' = cols img"
    by (auto simp: at_put_def split: if_splits)
  show ?thesis
    using index_inj[OF assms(2) c, of r' r] by (auto simp: at_get_def d e)
qed

lemma unat_succ8: "unat (w :: 8 word) < 255 \<Longrightarrow> unat (w + 1) = Suc (unat w)"
  by (simp add: unat_word_ariths)

lemma px_loop_for:
  assumes "pixels_per_column L \<le> 255"
  shows "unat ipx \<le> pixels_per_column L \<Longrightarrow>
    px_loop L az cb col th ipx img =
    for_loop [unat ipx..<pixels_per_column L] (\<lambda>i m. Some (px_body L az cb col th i m)) img"
proof (induction "pixels_per_column L - unat ipx" arbitrary: ipx img)
  case 0
  then have "\<not> unat ipx < pixels_per_column L" by simp
  then show ?case by (subst px_loop.simps) simp
next
  case (Suc n)
  then have lt: "unat ipx < pixels_per_column L" by simp
  with assms have "unat ipx < 255" by simp
  then have su: "unat (ipx + 1) = Suc (unat ipx)" by (rule unat_succ8)
  have up: "[unat ipx..<pixels_per_column L] = unat ipx # [Suc (unat ipx)..<pixels_per_column L]"
    using lt by (simp add: upt_conv_Cons)
  have "n = pixels_per_column L - unat (ipx + 1)" using Suc(2) su by simp
  moreover have "unat (ipx + 1) \<le> pixels_per_column L" using lt su by simp
  ultimately have IH: "\<And>img'. px_loop L az cb col th (ipx + 1) img' =
      for_loop [Suc (unat ipx)..<pixels_per_column L] (\<lambda>i m. Some (px_body L az cb col th i m)) img'"
    using Suc(1)[of "ipx + 1"] su by simp
  show ?case
    apply (subst px_loop.simps)
    apply (subst up)
    apply (simp only: lt if_True for_loop.simps option.case)
    apply (cases "px_body L az cb col th (unat ipx) img")
     apply (simp_all only: sum.case IH)
    done
qed

lemma px_for_loop:
  assumes "\<forall>i\<in>set js. i < rows img \<and> i < length az" "col < cols img"
  shows "\<exists>img'. for_loop js (\<lambda>i m. Some (px_body L az cb col (col_h_angle L cb) i m)) img = Some (Inr img')
      \<and> rows img' = rows img \<and> cols img' = cols img
      \<and> (\<forall>r c. c < cols img \<longrightarrow> at_get img' r c =
            (if c = col \<and> r \<in> set js then px_value L az cb r else at_get img r c))"
  using assms
proof (induction js arbitrary: img)
  case Nil
  then show ?case by simp
next
  case (Cons i js)
  from Cons.prems have i: "i < rows img" "i < length az" by simp_all
  obtain img1 where p: "at_put img i col (px_value L az cb i) = Inr img1"
    using i Cons.prems(2) by (auto simp: at_put_def)
  then have b: "px_body L az cb col (col_h_angle L cb) i img = Inr img1"
    using i by (simp add: px_body_def px_value_def Let_def)
  note rc = at_put_Inr(1,2)[OF p]
  have g: "\<And>r c. c < cols img \<Longrightarrow> at_get img1 r c = (if r = i \<and> c = col then px_value L az cb i else at_get img r c)"
    using at_get_at_put[OF p] by blast
  from Cons.prems rc have "\<forall>i\<in>set js. i < rows img1 \<and> i < length az" "col < cols img1" by simp_all
  from Cons.IH[OF this] obtain img' where
    l: "for_loop js (\<lambda>i m. Some (px_body L az cb col (col_h_angle L cb) i m)) img1 = Some (Inr img')"
    and r': "rows img' = rows img1" "cols img' = cols img1"
    and g': "\<forall>r c. c < cols img1 \<longrightarrow> at_get img' r c =
            (if c = col \<and> r \<in> set js then px_value L az cb r else at_get img1 r c)"
    by blast
  have "\<forall>r c. c < cols img \<longrightarrow> at_get img' r c =
            (if c = col \<and> r \<in> set (i # js) then px_value L az cb r else at_get img r c)"
    using g g' rc by auto
  then show ?case using l r' rc b by simp
qed

lemma col_body_spec:
  assumes "pixels_per_column L \<le> 255" "pixels_per_column L \<le> rows img"
    "pixels_per_column L \<le> length az" "ibuf * columns_per_buffer L + icol < cols img"
  shows "\<exists>img'. col_body L az pkt ibuf icol img = Some (Inr img')
      \<and> rows img' = rows img \<and> cols img' = cols img
      \<and> (\<forall>r c. c < cols img \<longrightarrow> at_get img' r c =
            (if r < pixels_per_column L \<and> c = ibuf * columns_per_buffer L + icol \<and> column_valid L pkt icol
             then px_value L az (nth_col L icol pkt) r else at_get img r c))"
proof (cases "column_valid L pkt icol")
  case False
  then show ?thesis by (simp add: col_body_def column_valid_def)
next
  case True
  have "\<forall>i\<in>set [0..<pixels_per_column L]. i < rows img \<and> i < length az"
    using assms by simp
  from px_for_loop[OF this assms(4), of L "nth_col L icol pkt"] obtain img' where
    l: "for_loop [0..<pixels_per_column L]
          (\<lambda>i m. Some (px_body L az (nth_col L icol pkt) (ibuf * columns_per_buffer L + icol)
                     (col_h_angle L (nth_col L icol pkt)) i m)) img = Some (Inr img')"
    and r': "rows img' = rows img" "cols img' = cols img"
    and g': "\<forall>r c. c < cols img \<longrightarrow> at_get img' r c =
            (if c = ibuf * columns_per_buffer L + icol \<and> r \<in> set [0..<pixels_per_column L]
             then px_value L az (nth_col L icol pkt) r else at_get img r c)"
    by blast
  have "col_body L az pkt ibuf icol img = Some (Inr img')"
    using True l px_loop_for[OF assms(1), of 0]
    by (simp add: col_body_def column_valid_def Let_def)
  moreover have "\<forall>r c. c < cols img \<longrightarrow> at_get img' r c =
            (if r < pixels_per_column L \<and> c = ibuf * columns_per_buffer L + icol \<and> column_valid L pkt icol
             then px_value L az (nth_col L icol pkt) r else at_get img r c)"
    using g' True by auto
  ultimately show ?thesis using r' by blast
qed

lemma col_for_loop:
  assumes "pixels_per_column L \<le> 255" "pixels_per_column L \<le> rows img"
    "pixels_per_column L \<le> length az" "\<forall>icol\<in>set js. ibuf * columns_per_buffer L + icol < cols img"
  shows "\<exists>img'. for_loop js (col_body L az pkt ibuf) img = Some (Inr img')
      \<and> rows img' = rows img \<and> cols img' = cols img
      \<and> (\<forall>r c. c < cols img \<longrightarrow> at_get img' r c =
            (if r < pixels_per_column L \<and> ibuf * columns_per_buffer L \<le> c
                \<and> c - ibuf * columns_per_buffer L \<in> set js
                \<and> column_valid L pkt (c - ibuf * columns_per_buffer L)
             then px_value L az (nth_col L (c - ibuf * columns_per_buffer L) pkt) r
             else at_get img r c))"
  using assms(2,4)
proof (induction js arbitrary: img)
  case Nil
  then show ?case by simp
next
  case (Cons i js)
  from Cons.prems have "ibuf * columns_per_buffer L + i < cols img" by simp
  from col_body_spec[OF assms(1) Cons.prems(1) assms(3) this, of pkt] obtain img1 where
    b: "col_body L az pkt ibuf i img = Some (Inr img1)"
    and rc: "rows img1 = rows img" "cols img1 = cols img"
    and g: "\<forall>r c. c < cols img \<longrightarrow> at_get img1 r c =
            (if r < pixels_per_column L \<and> c = ibuf * columns_per_buffer L + i \<and> column_valid L pkt i
             then px_value L az (nth_col L i pkt) r else at_get img r c)"
    by blast
  from Cons.prems rc have "pixels_per_column L \<le> rows img1"
    "\<forall>icol\<in>set js. ibuf * columns_per_buffer L + icol < cols img1" by simp_all
  from Cons.IH[OF this] obtain img' where
    l: "for_loop js (col_body L az pkt ibuf) img1 = Some (Inr img')"
    and r': "rows img' = rows img1" "cols img' = cols img1"
    and g': "\<forall>r c. c < cols img1 \<longrightarrow> at_get img' r c =
            (if r < pixels_per_column L \<and> ibuf * columns_per_buffer L \<le> c
                \<and> c - ibuf * columns_per_buffer L \<in> set js
                \<and> column_valid L pkt (c - ibuf * columns_per_buffer L)
             then px_value L az (nth_col L (c - ibuf * columns_per_buffer L) pkt) r
             else at_get img1 r c)"
    by blast
  have "\<forall>r c. c < cols img \<longrightarrow> at_get img' r c =
            (if r < pixels_per_column L \<and> ibuf * columns_per_buffer L \<le> c
                \<and> c - ibuf * columns_per_buffer L \<in> set (i # js)
                \<and> column_valid L pkt (c - ibuf * columns_per_buffer L)
             then px_value L az (nth_col L (c - ibuf * columns_per_buffer L) pkt) r
             else at_get img r c)"
  proof (intro allI impI)
    fix r c assume c: "c < cols img"
    show "at_get img' r c =
            (if r < pixels_per_column L \<and> ibuf * columns_per_buffer L \<le> c
                \<and> c - ibuf * columns_per_buffer L \<in> set (i # js)
                \<and> column_valid L pkt (c - ibuf * columns_per_buffer L)
             then px_value L az (nth_col L (c - ibuf * columns_per_buffer L) pkt) r
             else at_get img r c)"
    proof (cases "c = ibuf * columns_per_buffer L + i")
      case True
      then show ?thesis using g'[rule_format, of c r] g[rule_format, of c r] c rc by auto
    next
      case False
      then have "\<not> (ibuf * columns_per_buffer L \<le> c \<and> c - ibuf * columns_per_buffer L = i)" by auto
      then show ?thesis using g'[rule_format, of c r] g[rule_format, of c r] c rc False by auto
    qed
  qed
  then show ?case using l r' rc b by simp
qed

lemma div_block:
  fixes c k n :: nat
  assumes "0 < n"
  shows "(k * n \<le> c \<and> c - k * n < n) \<longleftrightarrow> c div n = k"
proof
  assume a: "k * n \<le> c \<and> c - k * n < n"
  define m where "m = c - k * n"
  with a have c: "c = k * n + m" and m: "m < n" by simp_all
  show "c div n = k" unfolding c using m by simp
next
  assume "c div n = k"
  then have "k * n \<le> c" "c - k * n = c mod n"
    using assms by (auto simp: minus_div_mult_eq_mod [symmetric] mult.commute)
  then show "k * n \<le> c \<and> c - k * n < n" using assms by simp
qed

lemma packet_body_spec:
  assumes "pixels_per_column L \<le> 255" "pixels_per_column L \<le> rows img"
    "pixels_per_column L \<le> length az" "0 < columns_per_buffer L"
    "packet_bytes L \<le> length (buffer ! ibuf)"
    "(ibuf + 1) * columns_per_buffer L \<le> cols img"
  shows "\<exists>img'. packet_body L az buffer ibuf img = Some (Inr img')
      \<and> rows img' = rows img \<and> cols img' = cols img
      \<and> (\<forall>r c. c < cols img \<longrightarrow> at_get img' r c =
            (if r < pixels_per_column L \<and> c div columns_per_buffer L = ibuf \<and> cell_valid L buffer c
             then cell_value L az buffer r c else at_get img r c))"
proof -
  have "\<forall>icol\<in>set [0..<columns_per_buffer L]. ibuf * columns_per_buffer L + icol < cols img"
    using assms(6) by auto
  from col_for_loop[OF assms(1,2,3) this, of "buffer ! ibuf"] obtain img' where
    l: "for_loop [0..<columns_per_buffer L] (col_body L az (buffer ! ibuf) ibuf) img = Some (Inr img')"
    and r': "rows img' = rows img" "cols img' = cols img"
    and g': "\<forall>r c. c < cols img \<longrightarrow> at_get img' r c =
            (if r < pixels_per_column L \<and> ibuf * columns_per_buffer L \<le> c
                \<and> c - ibuf * columns_per_buffer L \<in> set [0..<columns_per_buffer L]
                \<and> column_valid L (buffer ! ibuf) (c - ibuf * columns_per_buffer L)
             then px_value L az (nth_col L (c - ibuf * columns_per_buffer L) (buffer ! ibuf)) r
             else at_get img r c)"
    by blast
  have b: "packet_body L az buffer ibuf img = Some (Inr img')"
    using l assms(5) by (simp add: packet_body_def Let_def)
  have "\<forall>r c. c < cols img \<longrightarrow> at_get img' r c =
            (if r < pixels_per_column L \<and> c div columns_per_buffer L = ibuf \<and> cell_valid L buffer c
             then cell_value L az buffer r c else at_get img r c)"
  proof (intro allI impI)
    fix r c assume c: "c < cols img"
    show "at_get img' r c =
            (if r < pixels_per_column L \<and> c div columns_per_buffer L = ibuf \<and> cell_valid L buffer c
             then cell_value L az buffer r c else at_get img r c)"
    proof (cases "c div columns_per_buffer L = ibuf")
      case True
      then have "ibuf * columns_per_buffer L \<le> c" "c - ibuf * columns_per_buffer L < columns_per_buffer L"
        using div_block[OF assms(4), of ibuf c] by simp_all
      moreover have "c - ibuf * columns_per_buffer L = c mod columns_per_buffer L"
        using True by (auto simp: minus_div_mult_eq_mod [symmetric] mult.commute)
      ultimately show ?thesis
        using g'[rule_format, OF c, of r] True
        by (simp add: cell_valid_def cell_value_def)
    next
      case False
      then have "\<not> (ibuf * columns_per_buffer L \<le> c \<and> c - ibuf * columns_per_buffer L < columns_per_buffer L)"
        using div_block[OF assms(4), of ibuf c] by simp
      then show ?thesis using g'[rule_format, OF c, of r] False by auto
    qed
  qed
  then show ?thesis using b r' by blast
qed

lemma packet_for_loop:
  assumes "pixels_per_column L \<le> 255" "pixels_per_column L \<le> rows img"
    "pixels_per_column L \<le> length az" "0 < columns_per_buffer L"
    "\<forall>k\<in>set ks. packet_bytes L \<le> length (buffer ! k) \<and> (k + 1) * columns_per_buffer L \<le> cols img"
  shows "\<exists>img'. for_loop ks (packet_body L az buffer) img = Some (Inr img')
      \<and> rows img' = rows img \<and> cols img' = cols img
      \<and> (\<forall>r c. c < cols img \<longrightarrow> at_get img' r c =
            (if r < pixels_per_column L \<and> c div columns_per_buffer L \<in> set ks \<and> cell_valid L buffer c
             then cell_value L az buffer r c else at_get img r c))"
  using assms(2,5)
proof (induction ks arbitrary: img)
  case Nil
  then show ?case by simp
next
  case (Cons k ks)
  from Cons.prems have "packet_bytes L \<le> length (buffer ! k)" "(k + 1) * columns_per_buffer L \<le> cols img"
    by simp_all
  from packet_body_spec[OF assms(1) Cons.prems(1) assms(3,4) this] obtain img1 where
    b: "packet_body L az buffer k img = Some (Inr img1)"
    and rc: "rows img1 = rows img" "cols img1 = cols img"
    and g: "\<forall>r c. c < cols img \<longrightarrow> at_get img1 r c =
            (if r < pixels_per_column L \<and> c div columns_per_buffer L = k \<and> cell_valid L buffer c
             then cell_value L az buffer r c else at_get img r c)"
    by blast
  from Cons.prems rc have "pixels_per_column L \<le> rows img1"
    "\<forall>k\<in>set ks. packet_bytes L \<le> length (buffer ! k) \<and> (k + 1) * columns_per_buffer L \<le> cols img1"
    by simp_all
  from Cons.IH[OF this] obtain img' where
    l: "for_loop ks (packet_body L az buffer) img1 = Some (Inr img')"
    and r': "rows img' = rows img1" "cols img' = cols img1"
    and g': "\<forall>r c. c < cols img1 \<longrightarrow> at_get img' r c =
            (if r < pixels_per_column L \<and> c div columns_per_buffer L \<in> set ks \<and> cell_valid L buffer c
             then cell_value L az buffer r c else at_get img1 r c)"
    by blast
  have "\<forall>r c. c < cols img \<longrightarrow> at_get img' r c =
            (if r < pixels_per_column L \<and> c div columns_per_buffer L \<in> set (k # ks) \<and> cell_valid L buffer c
             then cell_value L az buffer r c else at_get img r c)"
    using g g' rc by auto
  then show ?case using l r' rc b by simp
qed

lemma build_image_spec:
  assumes "pixels_per_column L \<le> 255" "pixels_per_column L \<le> length az"
    "0 < columns_per_buffer L" "\<forall>p\<in>set buffer. packet_bytes L \<le> length p"
  shows "\<exists>img. build_image L az buffer = Some (Inr img)
      \<and> rows img = pixels_per_column L \<and> cols img = length buffer * columns_per_buffer L
      \<and> (\<forall>r c. c < length buffer * columns_per_buffer L \<longrightarrow> at_get img r c =
            (if r < pixels_per_column L \<and> cell_valid L buffer c
             then cell_value L az buffer r c else Scalar kNaNF))"
proof -
  let ?img0 = "Mat_init (pixels_per_column L) (length buffer * columns_per_buffer L) (Scalar kNaNF)"
  have r0: "rows ?img0 = pixels_per_column L" "cols ?img0 = length buffer * columns_per_buffer L"
    by (simp_all add: Mat_init_def)
  have g0: "\<And>r c. at_get ?img0 r c = Scalar kNaNF"
    by (simp add: Mat_init_def at_get_def)
  have "\<forall>k\<in>set [0..<length buffer]. packet_bytes L \<le> length (buffer ! k)
        \<and> (k + 1) * columns_per_buffer L \<le> cols ?img0"
    using assms(4) r0 by (auto simp del: mult_Suc)
  from packet_for_loop[OF assms(1) _ assms(2,3) this] r0 obtain img' where
    l: "for_loop [0..<length buffer] (packet_body L az buffer) ?img0 = Some (Inr img')"
    and r': "rows img' = rows ?img0" "cols img' = cols ?img0"
    and g': "\<forall>r c. c < cols ?img0 \<longrightarrow> at_get img' r c =
            (if r < pixels_per_column L \<and> c div columns_per_buffer L \<in> set [0..<length buffer]
                \<and> cell_valid L buffer c
             then cell_value L az buffer r c else at_get ?img0 r c)"
    by (metis order_refl)
  have "\<forall>r c. c < length buffer * columns_per_buffer L \<longrightarrow> at_get img' r c =
            (if r < pixels_per_column L \<and> cell_valid L buffer c
             then cell_value L az buffer r c else Scalar kNaNF)"
  proof (intro allI impI)
    fix r c assume c: "c < length buffer * columns_per_buffer L"
    then have "c div columns_per_buffer L < length buffer"
      using assms(3) by (simp add: less_mult_imp_div_less)
    then show "at_get img' r c =
            (if r < pixels_per_column L \<and> cell_valid L buffer c
             then cell_value L az buffer r c else Scalar kNaNF)"
      using g'[rule_format, of c r] c r0 g0 by simp
  qed
  moreover have "build_image L az buffer = Some (Inr img')"
    using l by (simp add: build_image_def Let_def)
  ultimately show ?thesis using r' r0 by auto
qed


section \<open>Properties of the projector\<close>

lemma cloud_cell_eq:
  "cloud_cell org (fcos phi) (fsin phi) v pts = pts @ cell_points org phi v"
  by (cases v) (simp add: cloud_cell_def cell_points_def nan_point_def project_def Let_def)

lemma cloud_cols_eq:
  "cloud_cols img org (fcos phi) (fsin phi) r cs pts =
     pts @ concat (map (\<lambda>c. cell_points org phi (at_get img r c)) cs)"
  by (induction cs arbitrary: pts) (simp_all add: cloud_cell_eq)

lemma cloud_rows_eq:
  "\<forall>r\<in>set rs. r < length alt \<Longrightarrow>
   cloud_rows img alt org rs pts =
     Inr (pts @ concat (map (\<lambda>r. concat (map (\<lambda>c. cell_points org (alt ! r) (at_get img r c)) [0..<cols img])) rs))"
  by (induction rs arbitrary: pts) (simp_all add: cloud_cols_eq Let_def)

lemma concat_map_product:
  "concat (map f (List.product xs ys)) = concat (map (\<lambda>x. concat (map (\<lambda>y. f (x, y)) ys)) xs)"
  by (induction xs) (simp_all add: comp_def)

lemma cloud_rows_scan:
  assumes "rows img \<le> length alt"
  shows "cloud_rows img alt org [0..<rows img] [] =
     Inr (concat (map (\<lambda>rc. cell_points org (alt ! fst rc) (at_get img (fst rc) (snd rc))) (scan_order img)))"
proof -
  have "\<forall>r\<in>set [0..<rows img]. r < length alt" using assms by simp
  from cloud_rows_eq[OF this] show ?thesis
    by (simp add: scan_order_def concat_map_product)
qed

lemma concat_singletons: "concat (map (\<lambda>x. [h x]) xs) = map h xs"
  by (induction xs) simp_all

lemma concat_filtered: "concat (map (\<lambda>x. if P x then [] else [h x]) xs) = map h (filter (\<lambda>x. \<not> P x) xs)"
  by (induction xs) simp_all

lemma ToCloud_organized:
  assumes "rows img \<le> length alt"
  shows "ToCloud img alt True =
     Inr \<lparr>points = map (\<lambda>rc. if is_empty_cell img rc then nan_point
                              else project (alt ! fst rc) (at_get img (fst rc) (snd rc))) (scan_order img),
          width = cols img, height = rows img\<rparr>"
proof -
  have "(\<lambda>rc. cell_points True (alt ! fst rc) (at_get img (fst rc) (snd rc)))
      = (\<lambda>rc. [if is_empty_cell img rc then nan_point
                else project (alt ! fst rc) (at_get img (fst rc) (snd rc))])"
    by (auto simp: cell_points_def is_empty_cell_def)
  then show ?thesis
    by (simp add: ToCloud_def cloud_rows_scan[OF assms] concat_singletons)
qed

lemma ToCloud_unorganized:
  assumes "rows img \<le> length alt"
  shows "ToCloud img alt False =
     Inr \<lparr>points = map (\<lambda>rc. project (alt ! fst rc) (at_get img (fst rc) (snd rc)))
                      (filter (\<lambda>rc. \<not> is_empty_cell img rc) (scan_order img)),
          width = length (filter (\<lambda>rc. \<not> is_empty_cell img rc) (scan_order img)), height = 1\<rparr>"
proof -
  have "(\<lambda>rc. cell_points False (alt ! fst rc) (at_get img (fst rc) (snd rc)))
      = (\<lambda>rc. if is_empty_cell img rc then []
                else [project (alt ! fst rc) (at_get img (fst rc) (snd rc))])"
    by (auto simp: cell_points_def is_empty_cell_def)
  then show ?thesis
    by (simp add: ToCloud_def cloud_rows_scan[OF assms] concat_filtered)
qed

lemma scan_order_set: "set (scan_order img) = {rc. fst rc < rows img \<and> snd rc < cols img}"
  by (auto simp: scan_order_def)

lemma scan_order_distinct: "distinct (scan_order img)"
  by (simp add: scan_order_def distinct_product)

lemma scan_order_length: "length (scan_order img) = rows img * cols img"
  by (simp add: scan_order_def)

lemma scan_order_nth:
  assumes "r < rows img" "c < cols img"
  shows "r * cols img + c < rows img * cols img" "scan_order img ! (r * cols img + c) = (r, c)"
proof -
  have "r * cols img + c < r * cols img + cols img" using assms by simp
  also have "\<dots> = (r + 1) * cols img" by simp
  also have "\<dots> \<le> rows img * cols img" using assms by (intro mult_le_mono1) simp
  finally show a: "r * cols img + c < rows img * cols img" .
  show "scan_order img ! (r * cols img + c) = (r, c)"
    using a assms by (simp add: scan_order_def product_nth)
qed

lemma nonempty_count:
  "length (filter (\<lambda>rc. \<not> is_empty_cell img rc) (scan_order img))
     = card {rc. fst rc < rows img \<and> snd rc < cols img \<and> \<not> is_empty_cell img rc}"
proof -
  have "distinct (filter (\<lambda>rc. \<not> is_empty_cell img rc) (scan_order img))"
    using scan_order_distinct by simp
  then have "length (filter (\<lambda>rc. \<not> is_empty_cell img rc) (scan_order img))
     = card (set (filter (\<lambda>rc. \<not> is_empty_cell img rc) (scan_order img)))"
    by (rule distinct_card [symmetric])
  also have "set (filter (\<lambda>rc. \<not> is_empty_cell img rc) (scan_order img))
     = {rc. fst rc < rows img \<and> snd rc < cols img \<and> \<not> is_empty_cell img rc}"
    by (auto simp: scan_order_set)
  finally show ?thesis .
qed


section \<open>Properties of the callbacks\<close>

lemma sdiv_nonneg: "0 \<le> (a::int) \<Longrightarrow> 0 \<le> b \<Longrightarrow> a sdiv b = a div b"
  by (cases "a = 0"; cases "b = 0") (simp_all add: signed_divide_int_def sgn_if)

lemma sdiv_neg: "(a::int) < 0 \<Longrightarrow> 0 < b \<Longrightarrow> a sdiv b = - ((- a) div b)"
  by (simp add: signed_divide_int_def sgn_if)

lemma ConfigCb_Inr:
  assumes "ConfigCb L s config = Inr (s', e)"
  shows "0 < columns_per_buffer L"
    "s' = s\<lparr>configM := normalize L config, bufferM := []\<rparr>"
    "e = (if image_width (normalize L config) < 0 then Some length_error else None)"
  using assms by (auto simp: ConfigCb_def Let_def split: if_splits)

lemma normalize_fields:
  "image_width (normalize L config) = (image_width config sdiv int (columns_per_buffer L)) * int (columns_per_buffer L)"
  "min_range (normalize L config) = std_min (min_range config) (max_range config)"
  "max_range (normalize L config) = max_range config"
  "organized (normalize L config) = organized config"
  "full_sweep (normalize L config) = full_sweep config"
  by (simp_all add: normalize_def Let_def)

lemma ToCloud_total:
  assumes "rows img \<le> length alt"
  shows "\<exists>cloud. ToCloud img alt org = Inr cloud"
  using ToCloud_organized[OF assms] ToCloud_unorganized[OF assms] by (cases org) simp_all

lemma LidarPacketCb_accumulates:
  assumes "size_less_int (Suc (length (bufferM s)) * columns_per_buffer L) (image_width (configM s))"
  shows "LidarPacketCb L s p = Some (Inr (s\<lparr>bufferM := bufferM s @ [p]\<rparr>, None))"
  using assms by (simp add: LidarPacketCb_def Let_def)

lemma LidarPacketCb_emits:
  assumes "\<not> size_less_int (Suc (length (bufferM s)) * columns_per_buffer L) (image_width (configM s))"
    and "sensor_ok L (infoM s)" "packets_ok L (bufferM s @ [p])"
  shows "\<exists>img cloud.
      build_image L (beam_azimuth_angles (infoM s)) (bufferM s @ [p]) = Some (Inr img)
    \<and> ToCloud img (beam_altitude_angles (infoM s)) (organized (configM s)) = Inr cloud
    \<and> rows img = pixels_per_column L
    \<and> cols img = Suc (length (bufferM s)) * columns_per_buffer L
    \<and> LidarPacketCb L s p =
        Some (Inr (s\<lparr>bufferM := []\<rparr>,
          Some \<lparr>image_msg = img,
                cinfo_msg = \<lparr>cinfo_height = rows img, cinfo_width = cols img,
                              cinfo_D = beam_altitude_angles (infoM s)\<rparr>,
                cloud_msg = cloud\<rparr>))"
proof -
  from assms(2,3) have
    "pixels_per_column L \<le> 255" "pixels_per_column L \<le> length (beam_azimuth_angles (infoM s))"
    "0 < columns_per_buffer L" "\<forall>q\<in>set (bufferM s @ [p]). packet_bytes L \<le> length q"
    by (simp_all add: sensor_ok_def packets_ok_def list_all_iff)
  from build_image_spec[OF this] obtain img where
    b: "build_image L (beam_azimuth_angles (infoM s)) (bufferM s @ [p]) = Some (Inr img)"
    and r: "rows img = pixels_per_column L"
    and c: "cols img = length (bufferM s @ [p]) * columns_per_buffer L"
    by blast
  have "rows img \<le> length (beam_altitude_angles (infoM s))"
    using r assms(2) by (simp add: sensor_ok_def)
  from ToCloud_total[OF this] obtain cloud where
    t: "ToCloud img (beam_altitude_angles (infoM s)) (organized (configM s)) = Inr cloud"
    by blast
  have "LidarPacketCb L s p =
        Some (Inr (s\<lparr>bufferM := []\<rparr>,
          Some \<lparr>image_msg = img,
                cinfo_msg = \<lparr>cinfo_height = rows img, cinfo_width = cols img,
                              cinfo_D = beam_altitude_angles (infoM s)\<rparr>,
                cloud_msg = cloud\<rparr>))"
    using assms(1) b t by (simp add: LidarPacketCb_def Let_def)
  with b t r c show ?thesis by simp
qed

lemma size_less_int_nonneg: "0 \<le> w \<Longrightarrow> size_less_int n w \<longleftrightarrow> int n < w"
  by (simp add: size_less_int_def)

lemma global_column:
  fixes icol n ibuf :: nat
  assumes "icol < n"
  shows "(ibuf * n + icol) div n = ibuf" "(ibuf * n + icol) mod n = icol"
  using assms by simp_all

lemma global_column_less:
  fixes icol n ibuf len :: nat
  assumes "icol < n" "ibuf < len"
  shows "ibuf * n + icol < len * n"
proof -
  have "ibuf * n + icol < ibuf * n + n" using assms by simp
  also have "\<dots> = (ibuf + 1) * n" by simp
  also have "\<dots> \<le> len * n" using assms by (intro mult_le_mono1) simp
  finally show ?thesis .
qed

lemma demo_accessors:
  "nth_col demo_layout n buf = drop (4 * n) buf"
  "col_valid demo_layout cb = (if first_byte (drop 3 cb) = 0xff then 0xffffffff else 0)"
  "col_h_angle demo_layout cb = Fin (real (unat (first_byte cb)))"
  "nth_px demo_layout n cb = drop (Suc n) cb"
  "px_range demo_layout pb = word_of_nat (unat (first_byte pb))"
  "px_reflectivity demo_layout pb = word_of_nat (unat (first_byte pb))"
  "columns_per_buffer demo_layout = 2" "pixels_per_column demo_layout = 2"
  "packet_bytes demo_layout = 8"
  by (simp_all add: demo_layout_def)

lemma project_eq:
  "project phi (d, rfl, theta) =
     \<lparr>p_x = fmul (fmul d (fcos phi)) (fcos theta),
      p_y = fneg (fmul (fmul d (fcos phi)) (fsin theta)),
      p_z = fmul d (fsin phi),
      p_intensity = rfl\<rparr>"
  by (simp add: project_def)

lemma ToCloud_cell:
  assumes "rows img \<le> length alt" "r < rows img" "c < cols img"
    and "\<not> isnan (fst (at_get img r c))"
  shows "\<exists>cloud. ToCloud img alt org = Inr cloud
    \<and> project (alt ! r) (at_get img r c) \<in> set (points cloud)
    \<and> (org \<longrightarrow> points cloud ! (r * cols img + c) = project (alt ! r) (at_get img r c))"
proof (cases org)
  case True
  let ?f = "\<lambda>rc. if is_empty_cell img rc then nan_point
                 else project (alt ! fst rc) (at_get img (fst rc) (snd rc))"
  note n = scan_order_nth[OF assms(2,3)]
  have l: "r * cols img + c < length (scan_order img)" using n(1) by (simp add: scan_order_length)
  have e: "map ?f (scan_order img) ! (r * cols img + c) = project (alt ! r) (at_get img r c)"
    using l n(2) assms(4) by (simp add: is_empty_cell_def)
  have "map ?f (scan_order img) ! (r * cols img + c) \<in> set (map ?f (scan_order img))"
    using l by (intro nth_mem) simp
  with e have "project (alt ! r) (at_get img r c) \<in> set (map ?f (scan_order img))" by simp
  with e True show ?thesis by (simp add: ToCloud_organized[OF assms(1)])
next
  case False
  have "(r, c) \<in> set (filter (\<lambda>rc. \<not> is_empty_cell img rc) (scan_order img))"
    using assms(2,3,4) by (simp add: scan_order_set is_empty_cell_def)
  then have "project (alt ! fst (r, c)) (at_get img (fst (r, c)) (snd (r, c)))
      \<in> (\<lambda>rc. project (alt ! fst rc) (at_get img (fst rc) (snd rc)))
          ` set (filter (\<lambda>rc. \<not> is_empty_cell img rc) (scan_order img))"
    by (rule imageI)
  with False show ?thesis by (simp add: ToCloud_unorganized[OF assms(1)])
qed

lemma cloud_rows_fault:
  assumes "length alt \<in> set rs"
  shows "\<exists>e. cloud_rows img alt org rs pts = Inl e"
  using assms by (induction rs arbitrary: pts) (auto simp: Let_def)

lemma cell_value_not_nan: "\<not> isnan (fst (cell_value L az buffer r c))"
  by (simp add: cell_value_def px_value_def float_of_word_def range_factor_def)

lemma LidarPacketCb_ranges:
  "LidarPacketCb L (s\<lparr>configM := (configM s)\<lparr>min_range := a, max_range := b\<rparr>\<rparr>) p =
     map_option (map_sum id (\<lambda>so. ((fst so)\<lparr>configM := (configM (fst so))\<lparr>min_range := a, max_range := b\<rparr>\<rparr>, snd so)))
       (LidarPacketCb L s p)"
  by (simp add: LidarPacketCb_def Let_def split: option.splits sum.splits)

lemma for_loop_preserves:
  assumes "\<And>i a a'. body i a = Some (Inr a') \<Longrightarrow> P a \<Longrightarrow> P a'"
    and "for_loop js body a = Some (Inr a')" "P a"
  shows "P a'"
  using assms(2,3)
proof (induction js arbitrary: a)
  case Nil
  then show ?case by simp
next
  case (Cons i js)
  from Cons.prems(1) obtain a1 where b: "body i a = Some (Inr a1)"
    and l: "for_loop js body a1 = Some (Inr a')"
    by (auto split: option.splits sum.splits)
  from assms(1)[OF b Cons.prems(2)] have "P a1" .
  from Cons.IH[OF l this] show ?case .
qed

lemma px_body_dims:
  assumes "px_body L az cb col th i img = Inr img'"
  shows "rows img' = rows img \<and> cols img' = cols img"
  using assms by (auto simp: px_body_def at_put_def Let_def split: if_splits)

lemma px_loop_dims:
  assumes "px_loop L az cb col th ipx img = Some y"
  shows "\<forall>img'. y = Inr img' \<longrightarrow> rows img' = rows img \<and> cols img' = cols img"
proof (rule px_loop.raw_induct[where P = "\<lambda>L az cb col th ipx img y.
          \<forall>img'. y = Inr img' \<longrightarrow> rows img' = rows img \<and> cols img' = cols img", OF _ assms])
  fix px_loop' L az cb col th ipx img y
  assume IH: "\<And>L az cb col th ipx img y. px_loop' L az cb col th ipx img = Some y \<Longrightarrow>
          \<forall>img'. y = Inr img' \<longrightarrow> rows img' = rows img \<and> cols img' = cols img"
    and b: "(if unat ipx < pixels_per_column L
      then case px_body L az cb col th (unat ipx) img of
           Inl e \<Rightarrow> Some (Inl e)
           | Inr img' \<Rightarrow> px_loop' L az cb col th (ipx + 1) img'
      else Some (Inr img)) = Some y"
  show "\<forall>img'. y = Inr img' \<longrightarrow> rows img' = rows img \<and> cols img' = cols img"
  proof (cases "unat ipx < pixels_per_column L")
    case False
    with b have "y = Inr img" by simp
    then show ?thesis by simp
  next
    case True
    show ?thesis
    proof (cases "px_body L az cb col th (unat ipx) img")
      case (Inl e)
      with True b have "y = Inl e" by simp
      then show ?thesis by simp
    next
      case (Inr img1)
      with True b have "px_loop' L az cb col th (ipx + 1) img1 = Some y" by simp
      from IH[OF this] px_body_dims[OF Inr] show ?thesis by metis
    qed
  qed
qed

lemma col_body_dims:
  assumes "col_body L az pkt ibuf icol img = Some (Inr img')"
  shows "rows img' = rows img \<and> cols img' = cols img"
proof (cases "col_valid L (nth_col L icol pkt) = 0xffffffff")
  case False
  with assms show ?thesis by (simp add: col_body_def)
next
  case True
  with assms have "px_loop L az (nth_col L icol pkt) (ibuf * columns_per_buffer L + icol)
      (col_h_angle L (nth_col L icol pkt)) 0 img = Some (Inr img')"
    by (simp add: col_body_def Let_def)
  from px_loop_dims[OF this] show ?thesis by blast
qed

lemma packet_body_dims:
  assumes "packet_body L az buffer ibuf img = Some (Inr img')"
  shows "rows img' = rows img \<and> cols img' = cols img"
proof -
  from assms have l: "for_loop [0..<columns_per_buffer L] (col_body L az (buffer ! ibuf) ibuf) img
      = Some (Inr img')"
    by (simp add: packet_body_def Let_def split: if_splits)
  show ?thesis
  proof (rule for_loop_preserves[where P = "\<lambda>m. rows m = rows img \<and> cols m = cols img", OF _ l])
    fix i a a'
    assume "col_body L az (buffer ! ibuf) ibuf i a = Some (Inr a')"
      and "rows a = rows img \<and> cols a = cols img"
    then show "rows a' = rows img \<and> cols a' = cols img"
      using col_body_dims by metis
  qed simp
qed

lemma build_image_dims:
  assumes "build_image L az buffer = Some (Inr img)"
  shows "rows img = pixels_per_column L \<and> cols img = length buffer * columns_per_buffer L"
proof -
  let ?img0 = "Mat_init (pixels_per_column L) (length buffer * columns_per_buffer L) (Scalar kNaNF)"
  from assms have l: "for_loop [0..<length buffer] (packet_body L az buffer) ?img0 = Some (Inr img)"
    by (simp add: build_image_def Let_def)
  have "rows img = rows ?img0 \<and> cols img = cols ?img0"
  proof (rule for_loop_preserves[where P = "\<lambda>m. rows m = rows ?img0 \<and> cols m = cols ?img0", OF _ l])
    fix i a a'
    assume "packet_body L az buffer i a = Some (Inr a')"
      and "rows a = rows ?img0 \<and> cols a = cols ?img0"
    then show "rows a' = rows ?img0 \<and> cols a' = cols ?img0"
      using packet_body_dims by metis
  qed simp
  then show ?thesis by (simp add: Mat_init_def)
qed

lemma LidarPacketCb_cases:
  assumes "LidarPacketCb L s p = Some (Inr (s', out))"
  shows "(size_less_int (Suc (length (bufferM s)) * columns_per_buffer L) (image_width (configM s))
            \<and> out = None \<and> s' = s\<lparr>bufferM := bufferM s @ [p]\<rparr>)
       \<or> (\<not> size_less_int (Suc (length (bufferM s)) * columns_per_buffer L) (image_width (configM s))
            \<and> s' = s\<lparr>bufferM := []\<rparr>
            \<and> (\<exists>pub. out = Some pub
                 \<and> build_image L (beam_azimuth_angles (infoM s)) (bufferM s @ [p]) = Some (Inr (image_msg pub))
                 \<and> cols (image_msg pub) = Suc (length (bufferM s)) * columns_per_buffer L))"
proof (cases "size_less_int (Suc (length (bufferM s)) * columns_per_buffer L) (image_width (configM s))")
  case True
  with assms show ?thesis by (auto simp: LidarPacketCb_def Let_def)
next
  case False
  with assms obtain img cloud where
    b: "build_image L (beam_azimuth_angles (infoM s)) (bufferM s @ [p]) = Some (Inr img)"
    and o: "out = Some \<lparr>image_msg = img,
                cinfo_msg = \<lparr>cinfo_height = rows img, cinfo_width = cols img,
                              cinfo_D = beam_altitude_angles (infoM s)\<rparr>,
                cloud_msg = cloud\<rparr>"
    and s: "s' = s\<lparr>bufferM := []\<rparr>"
    by (auto simp: LidarPacketCb_def Let_def split: option.splits sum.splits)
  from build_image_dims[OF b] b o s False show ?thesis by simp
qed

lemma ConfigCb_buffer:
  assumes "ConfigCb L s config = Inr (s', e)"
  shows "bufferM s' = []" "configM s' = normalize L config" "infoM s' = infoM s"
  using ConfigCb_Inr(2)[OF assms] by simp_all

lemma ConfigCb_old_buffer: "ConfigCb L (s\<lparr>bufferM := old\<rparr>) config = ConfigCb L s config"
  by (simp add: ConfigCb_def Let_def)

lemma emitted_at_least_width:
  assumes "LidarPacketCb L s p = Some (Inr (s', Some pub))"
  shows "image_width (configM s) \<le> int (cols (image_msg pub))"
proof -
  from LidarPacketCb_cases[OF assms] have
    a: "\<not> size_less_int (Suc (length (bufferM s)) * columns_per_buffer L) (image_width (configM s))"
    and c: "cols (image_msg pub) = Suc (length (bufferM s)) * columns_per_buffer L"
    by auto
  show ?thesis
  proof (cases "image_width (configM s) < 0")
    case True
    then show ?thesis by linarith
  next
    case False
    with a c show ?thesis by (simp add: size_less_int_def)
  qed
qed


section \<open>The invariant of the sweep accumulator\<close>

lemma size_less_int_zero: "\<not> size_less_int n 0"
  by (simp add: size_less_int_def)

lemma size_less_int_pos: "0 < w \<Longrightarrow> size_less_int n w \<longleftrightarrow> int n < w"
  by (simp add: size_less_int_def)

lemma LidarPacketCb_keeps:
  assumes "LidarPacketCb L s p = Some (Inr (s', out))"
  shows "configM s' = configM s" "infoM s' = infoM s"
  using LidarPacketCb_cases[OF assms] by auto

lemma LidarPacketCb_inv:
  assumes "sweep_inv L s" "LidarPacketCb L s p = Some (Inr (s', out))"
  shows "sweep_inv L s'"
proof -
  let ?w = "image_width (configM s)"
  let ?n = "Suc (length (bufferM s)) * columns_per_buffer L"
  from LidarPacketCb_cases[OF assms(2)] consider
    (acc) "size_less_int ?n ?w" "s' = s\<lparr>bufferM := bufferM s @ [p]\<rparr>"
    | (emit) "s' = s\<lparr>bufferM := []\<rparr>"
    by blast
  then show ?thesis
  proof cases
    case acc
    have "\<not> ?w = 0" using acc(1) size_less_int_zero[of ?n] by auto
    moreover have "0 < ?w \<longrightarrow> int ?n < ?w" using acc(1) size_less_int_pos[of ?w ?n] by auto
    moreover have "length (bufferM s') * columns_per_buffer L = ?n" using acc(2) by simp
    moreover have "configM s' = configM s" using acc(2) by simp
    ultimately show ?thesis using assms(1) unfolding sweep_inv_def by presburger
  next
    case emit
    then show ?thesis using assms(1) by (simp add: sweep_inv_def)
  qed
qed

lemma ConfigCb_inv:
  assumes "ConfigCb L s config = Inr (s', e)"
  shows "sweep_inv L s'"
  using ConfigCb_buffer[OF assms] by (simp add: sweep_inv_def normalize_fields)

lemma run_inv:
  assumes "sweep_inv L s" "run L s evs = Some (Inr (s', pubs))"
  shows "sweep_inv L s'"
  using assms
proof (induction evs arbitrary: s pubs)
  case Nil
  then show ?case by simp
next
  case (Cons ev evs)
  show ?case
  proof (cases ev)
    case (Packet p)
    with Cons.prems(2) obtain s1 out pubs1 where
      l: "LidarPacketCb L s p = Some (Inr (s1, out))"
      and r: "run L s1 evs = Some (Inr (s', pubs1))"
      by (auto split: option.splits sum.splits prod.splits)
    from Cons.IH[OF LidarPacketCb_inv[OF Cons.prems(1) l] r] show ?thesis .
  next
    case (Reconfigure config)
    with Cons.prems(2) obtain s1 e where
      c: "ConfigCb L s config = Inr (s1, e)"
      and r: "run L s1 evs = Some (Inr (s', pubs))"
      by (auto split: sum.splits prod.splits)
    from Cons.IH[OF ConfigCb_inv[OF c] r] show ?thesis .
  qed
qed

lemma emitted_width:
  assumes "sweep_inv L s" "0 < image_width (configM s)"
    and "LidarPacketCb L s p = Some (Inr (s', Some pub))"
  shows "int (cols (image_msg pub)) = image_width (configM s)"
proof -
  let ?w = "image_width (configM s)"
  let ?c = "int (columns_per_buffer L)"
  let ?l = "int (length (bufferM s))"
  from LidarPacketCb_cases[OF assms(3)] have
    a: "\<not> size_less_int (Suc (length (bufferM s)) * columns_per_buffer L) ?w"
    and c: "cols (image_msg pub) = Suc (length (bufferM s)) * columns_per_buffer L"
    by auto
  have "int (Suc (length (bufferM s)) * columns_per_buffer L) = (?l + 1) * ?c"
    by (simp add: algebra_simps)
  with a assms(2) have up: "?w \<le> (?l + 1) * ?c"
    using size_less_int_pos[of ?w "Suc (length (bufferM s)) * columns_per_buffer L"] by linarith
  from assms(1,2) have lo: "?l * ?c < ?w" and d: "?c dvd ?w" by (simp_all add: sweep_inv_def)
  from d obtain k where k: "?w = ?c * k" by (auto simp: dvd_def)
  have c0: "0 < ?c"
  proof (rule ccontr)
    assume "\<not> 0 < ?c"
    then have "?c = 0" by simp
    with k assms(2) show False by simp
  qed
  have "?l * ?c < k * ?c" using lo k by (simp add: mult.commute)
  then have k1: "?l < k" using c0 by (simp add: mult_less_cancel_right)
  have "k * ?c \<le> (?l + 1) * ?c" using up k by (simp add: mult.commute)
  then have k2: "k \<le> ?l + 1" using c0 by (simp add: mult_le_cancel_right)
  from k1 k2 have "k = ?l + 1" by linarith
  then have "?w = (?l + 1) * ?c" using k by (simp add: mult.commute)
  then show ?thesis using c by (simp add: algebra_simps)
qed

lemma run_packets_width:
  assumes "sweep_inv L s" "0 < image_width (configM s)"
    and "run L s (map Packet ps) = Some (Inr (s', pubs))"
  shows "list_all (\<lambda>pub. int (cols (image_msg pub)) = image_width (configM s)) pubs"
  using assms
proof (induction ps arbitrary: s pubs)
  case Nil
  then show ?case by simp
next
  case (Cons p ps)
  from Cons.prems(3) obtain s1 out pubs1 where
    l: "LidarPacketCb L s p = Some (Inr (s1, out))"
    and r: "run L s1 (map Packet ps) = Some (Inr (s', pubs1))"
    and e: "pubs = (case out of None \<Rightarrow> [] | Some pub \<Rightarrow> [pub]) @ pubs1"
    by (auto split: option.splits sum.splits prod.splits)
  note k = LidarPacketCb_keeps[OF l]
  have i: "sweep_inv L s1" using LidarPacketCb_inv[OF Cons.prems(1) l] .
  have w: "0 < image_width (configM s1)" using Cons.prems(2) k by simp
  from Cons.IH[OF i w r] k have t:
    "list_all (\<lambda>pub. int (cols (image_msg pub)) = image_width (configM s)) pubs1" by simp
  show ?case
  proof (cases out)
    case None
    with e t show ?thesis by simp
  next
    case (Some pub)
    with l have "LidarPacketCb L s p = Some (Inr (s1, Some pub))" by simp
    from emitted_width[OF Cons.prems(1,2) this] e t Some show ?thesis by simp
  qed
qed

lemma zero_width_emits:
  assumes "sweep_inv L s" "image_width (configM s) = 0"
    and "sensor_ok L (infoM s)" "packets_ok L [p]"
  shows "\<exists>pub. LidarPacketCb L s p = Some (Inr (s, Some pub))
      \<and> cols (image_msg pub) = columns_per_buffer L"
proof -
  from assms(1,2) have b: "bufferM s = []" by (simp add: sweep_inv_def)
  have a: "\<not> size_less_int (Suc (length (bufferM s)) * columns_per_buffer L) (image_width (configM s))"
    unfolding assms(2) by (rule size_less_int_zero)
  have c: "packets_ok L (bufferM s @ [p])" using assms(4) b by simp
  have "s\<lparr>bufferM := []\<rparr> = s" using b by simp
  with LidarPacketCb_emits[OF a assms(3) c] b show ?thesis by auto
qed

lemma run_packets_config:
  assumes "run L s (map Packet ps) = Some (Inr (s', pubs))"
  shows "configM s' = configM s"
  using assms
proof (induction ps arbitrary: s pubs)
  case Nil
  then show ?case by simp
next
  case (Cons p ps)
  from Cons.prems obtain s1 out pubs1 where
    l: "LidarPacketCb L s p = Some (Inr (s1, out))"
    and r: "run L s1 (map Packet ps) = Some (Inr (s', pubs1))"
    by (auto split: option.splits sum.splits prod.splits)
  from Cons.IH[OF r] LidarPacketCb_keeps(1)[OF l] show ?case by simp
qed


section \<open>The claims\<close>


subsection \<open>Sweep completion\<close>

lemma negative_width_never_emits:
  assumes "image_width (configM s) < 0"
    and "int (Suc (length (bufferM s)) * columns_per_buffer L) < 2 ^ 64 + image_width (configM s)"
  shows "LidarPacketCb L s p = Some (Inr (s\<lparr>bufferM := bufferM s @ [p]\<rparr>, None))"
proof -
  have "size_less_int (Suc (length (bufferM s)) * columns_per_buffer L) (image_width (configM s))"
    unfolding size_less_int_def using assms by presburger
  then show ?thesis by (rule LidarPacketCb_accumulates)
qed

lemma sweep_completion_nonneg:
  assumes "0 \<le> image_width (configM s)"
  shows "(int (Suc (length (bufferM s)) * columns_per_buffer L) < image_width (configM s) \<longrightarrow>
            LidarPacketCb L s p = Some (Inr (s\<lparr>bufferM := bufferM s @ [p]\<rparr>, None)))
       \<and> (image_width (configM s) \<le> int (Suc (length (bufferM s)) * columns_per_buffer L)
            \<and> sensor_ok L (infoM s) \<and> packets_ok L (bufferM s @ [p]) \<longrightarrow>
            (\<exists>pub. LidarPacketCb L s p = Some (Inr (s\<lparr>bufferM := []\<rparr>, Some pub))
                \<and> build_image L (beam_azimuth_angles (infoM s)) (bufferM s @ [p]) = Some (Inr (image_msg pub))
                \<and> cols (image_msg pub) = Suc (length (bufferM s)) * columns_per_buffer L))
       \<and> (columns_per_buffer L = 16 \<and> image_width (configM s) = 1024 \<longrightarrow>
            (length (bufferM s) < 63 \<longrightarrow>
               LidarPacketCb L s p = Some (Inr (s\<lparr>bufferM := bufferM s @ [p]\<rparr>, None)))
          \<and> (length (bufferM s) = 63 \<and> sensor_ok L (infoM s) \<and> packets_ok L (bufferM s @ [p]) \<longrightarrow>
               (\<exists>pub. LidarPacketCb L s p = Some (Inr (s\<lparr>bufferM := []\<rparr>, Some pub))
                  \<and> build_image L (beam_azimuth_angles (infoM s)) (bufferM s @ [p]) = Some (Inr (image_msg pub))
                  \<and> cols (image_msg pub) = 1024)))"
proof -
  let ?n = "Suc (length (bufferM s)) * columns_per_buffer L"
  have A: "int ?n < image_width (configM s) \<longrightarrow>
            LidarPacketCb L s p = Some (Inr (s\<lparr>bufferM := bufferM s @ [p]\<rparr>, None))"
    using LidarPacketCb_accumulates[of s L p] assms by (simp add: size_less_int_nonneg)
  have B: "image_width (configM s) \<le> int ?n
            \<and> sensor_ok L (infoM s) \<and> packets_ok L (bufferM s @ [p]) \<longrightarrow>
            (\<exists>pub. LidarPacketCb L s p = Some (Inr (s\<lparr>bufferM := []\<rparr>, Some pub))
                \<and> build_image L (beam_azimuth_angles (infoM s)) (bufferM s @ [p]) = Some (Inr (image_msg pub))
                \<and> cols (image_msg pub) = ?n)"
  proof
    assume h: "image_width (configM s) \<le> int ?n
            \<and> sensor_ok L (infoM s) \<and> packets_ok L (bufferM s @ [p])"
    then have "\<not> size_less_int ?n (image_width (configM s))"
      using assms by (simp add: size_less_int_nonneg)
    from LidarPacketCb_emits[OF this] h obtain img cloud where
      "build_image L (beam_azimuth_angles (infoM s)) (bufferM s @ [p]) = Some (Inr img)"
      "cols img = ?n"
      "LidarPacketCb L s p =
        Some (Inr (s\<lparr>bufferM := []\<rparr>,
          Some \<lparr>image_msg = img,
                cinfo_msg = \<lparr>cinfo_height = rows img, cinfo_width = cols img,
                              cinfo_D = beam_altitude_angles (infoM s)\<rparr>,
                cloud_msg = cloud\<rparr>))"
      by blast
    then show "\<exists>pub. LidarPacketCb L s p = Some (Inr (s\<lparr>bufferM := []\<rparr>, Some pub))
                \<and> build_image L (beam_azimuth_angles (infoM s)) (bufferM s @ [p]) = Some (Inr (image_msg pub))
                \<and> cols (image_msg pub) = ?n"
      by simp
  qed
  have C: "columns_per_buffer L = 16 \<and> image_width (configM s) = 1024 \<longrightarrow>
            (length (bufferM s) < 63 \<longrightarrow>
               LidarPacketCb L s p = Some (Inr (s\<lparr>bufferM := bufferM s @ [p]\<rparr>, None)))
          \<and> (length (bufferM s) = 63 \<and> sensor_ok L (infoM s) \<and> packets_ok L (bufferM s @ [p]) \<longrightarrow>
               (\<exists>pub. LidarPacketCb L s p = Some (Inr (s\<lparr>bufferM := []\<rparr>, Some pub))
                  \<and> build_image L (beam_azimuth_angles (infoM s)) (bufferM s @ [p]) = Some (Inr (image_msg pub))
                  \<and> cols (image_msg pub) = 1024))"
  proof (intro impI conjI)
    assume h: "columns_per_buffer L = 16 \<and> image_width (configM s) = 1024"
      and l: "length (bufferM s) < 63"
    then have "int ?n < image_width (configM s)" by simp
    with A show "LidarPacketCb L s p = Some (Inr (s\<lparr>bufferM := bufferM s @ [p]\<rparr>, None))" by blast
  next
    assume h: "columns_per_buffer L = 16 \<and> image_width (configM s) = 1024"
      and l: "length (bufferM s) = 63 \<and> sensor_ok L (infoM s) \<and> packets_ok L (bufferM s @ [p])"
    then have n: "?n = 1024" by simp
    then have "image_width (configM s) \<le> int ?n" using h by simp
    with B l n show "\<exists>pub. LidarPacketCb L s p = Some (Inr (s\<lparr>bufferM := []\<rparr>, Some pub))
                  \<and> build_image L (beam_azimuth_angles (infoM s)) (bufferM s @ [p]) = Some (Inr (image_msg pub))
                  \<and> cols (image_msg pub) = 1024"
      by simp
  qed
  from A B C show ?thesis by blast
qed

text \<open>
  Claim C1, as the code has it. A packet arrival appends the packet to the buffer. Under a
  stored \<open>image_width\<close> that is not negative the callback does what the claim says: if
  the buffered columns, \<open>buffer length times columns_per_buffer\<close>, are still fewer than
  \<open>image_width\<close> nothing is emitted and the packet stays buffered; otherwise, when the
  sweep can be decoded, the same call publishes the image built from the whole buffer, all
  its columns, and clears the buffer; with 16 columns per packet and a width of 1024 no
  arrival emits while fewer than 63 packets are buffered, and the arrival of the 64th
  packet emits a sweep of 1024 columns. Under a negative stored width the comparison
  \<^verbatim>\<open>curr_width < config_.image_width\<close> is made in the unsigned type, where the width \<open>w\<close>
  counts as \<open>2 ^ 64 + w\<close>: the packet is buffered and nothing is emitted, although the
  buffered columns are not fewer than \<open>image_width\<close>.
\<close>

theorem LidarPacketCb_sweep_completion:
  "(0 \<le> image_width (configM s) \<longrightarrow>
       (int (Suc (length (bufferM s)) * columns_per_buffer L) < image_width (configM s) \<longrightarrow>
               LidarPacketCb L s p = Some (Inr (s\<lparr>bufferM := bufferM s @ [p]\<rparr>, None)))
          \<and> (image_width (configM s) \<le> int (Suc (length (bufferM s)) * columns_per_buffer L)
               \<and> sensor_ok L (infoM s) \<and> packets_ok L (bufferM s @ [p]) \<longrightarrow>
               (\<exists>pub. LidarPacketCb L s p = Some (Inr (s\<lparr>bufferM := []\<rparr>, Some pub))
                   \<and> build_image L (beam_azimuth_angles (infoM s)) (bufferM s @ [p]) = Some (Inr (image_msg pub))
                   \<and> cols (image_msg pub) = Suc (length (bufferM s)) * columns_per_buffer L))
          \<and> (columns_per_buffer L = 16 \<and> image_width (configM s) = 1024 \<longrightarrow>
               (length (bufferM s) < 63 \<longrightarrow>
                  LidarPacketCb L s p = Some (Inr (s\<lparr>bufferM := bufferM s @ [p]\<rparr>, None)))
             \<and> (length (bufferM s) = 63 \<and> sensor_ok L (infoM s) \<and> packets_ok L (bufferM s @ [p]) \<longrightarrow>
                  (\<exists>pub. LidarPacketCb L s p = Some (Inr (s\<lparr>bufferM := []\<rparr>, Some pub))
                     \<and> build_image L (beam_azimuth_angles (infoM s)) (bufferM s @ [p]) = Some (Inr (image_msg pub))
                     \<and> cols (image_msg pub) = 1024))))
   \<and> (image_width (configM s) < 0
        \<and> int (Suc (length (bufferM s)) * columns_per_buffer L) < 2 ^ 64 + image_width (configM s) \<longrightarrow>
        LidarPacketCb L s p = Some (Inr (s\<lparr>bufferM := bufferM s @ [p]\<rparr>, None))
        \<and> image_width (configM s) \<le> int (length (bufferM s @ [p]) * columns_per_buffer L))"
proof -
  have P: "0 \<le> image_width (configM s) \<longrightarrow>
       (int (Suc (length (bufferM s)) * columns_per_buffer L) < image_width (configM s) \<longrightarrow>
            LidarPacketCb L s p = Some (Inr (s\<lparr>bufferM := bufferM s @ [p]\<rparr>, None)))
       \<and> (image_width (configM s) \<le> int (Suc (length (bufferM s)) * columns_per_buffer L)
            \<and> sensor_ok L (infoM s) \<and> packets_ok L (bufferM s @ [p]) \<longrightarrow>
            (\<exists>pub. LidarPacketCb L s p = Some (Inr (s\<lparr>bufferM := []\<rparr>, Some pub))
                \<and> build_image L (beam_azimuth_angles (infoM s)) (bufferM s @ [p]) = Some (Inr (image_msg pub))
                \<and> cols (image_msg pub) = Suc (length (bufferM s)) * columns_per_buffer L))
       \<and> (columns_per_buffer L = 16 \<and> image_width (configM s) = 1024 \<longrightarrow>
            (length (bufferM s) < 63 \<longrightarrow>
               LidarPacketCb L s p = Some (Inr (s\<lparr>bufferM := bufferM s @ [p]\<rparr>, None)))
          \<and> (length (bufferM s) = 63 \<and> sensor_ok L (infoM s) \<and> packets_ok L (bufferM s @ [p]) \<longrightarrow>
               (\<exists>pub. LidarPacketCb L s p = Some (Inr (s\<lparr>bufferM := []\<rparr>, Some pub))
                  \<and> build_image L (beam_azimuth_angles (infoM s)) (bufferM s @ [p]) = Some (Inr (image_msg pub))
                  \<and> cols (image_msg pub) = 1024)))"
    using sweep_completion_nonneg by blast
  have N: "image_width (configM s) < 0
        \<and> int (Suc (length (bufferM s)) * columns_per_buffer L) < 2 ^ 64 + image_width (configM s) \<longrightarrow>
        LidarPacketCb L s p = Some (Inr (s\<lparr>bufferM := bufferM s @ [p]\<rparr>, None))
        \<and> image_width (configM s) \<le> int (length (bufferM s @ [p]) * columns_per_buffer L)"
  proof
    assume h: "image_width (configM s) < 0
        \<and> int (Suc (length (bufferM s)) * columns_per_buffer L) < 2 ^ 64 + image_width (configM s)"
    then have "LidarPacketCb L s p = Some (Inr (s\<lparr>bufferM := bufferM s @ [p]\<rparr>, None))"
      using negative_width_never_emits by blast
    moreover have "0 \<le> int (length (bufferM s @ [p]) * columns_per_buffer L)"
      by (rule of_nat_0_le_iff)
    with h have "image_width (configM s) \<le> int (length (bufferM s @ [p]) * columns_per_buffer L)"
      by linarith
    ultimately show "LidarPacketCb L s p = Some (Inr (s\<lparr>bufferM := bufferM s @ [p]\<rparr>, None))
        \<and> image_width (configM s) \<le> int (length (bufferM s @ [p]) * columns_per_buffer L)"
      by simp
  qed
  from P N show ?thesis by (rule conjI)
qed

text \<open>
  The arrival of the 64th packet, 16 columns per packet, width 1024. And the failing
  input: an update that asks for width -3, two columns per packet, stores -2 and ends with
  the exception of \<^verbatim>\<open>reserve\<close>; the first packet that arrives then gives two columns,
  which is not below -2, and yet nothing is emitted.
\<close>

theorem LidarPacketCb_sweep_completion_witness:
  "0 \<le> image_width (configM (demo_decoder16 63))
   \<and> columns_per_buffer demo_layout16 = 16 \<and> image_width (configM (demo_decoder16 63)) = 1024
   \<and> length (bufferM (demo_decoder16 63)) = 63
   \<and> sensor_ok demo_layout16 (infoM (demo_decoder16 63))
   \<and> packets_ok demo_layout16 (bufferM (demo_decoder16 63) @ [demo_packet16])
   \<and> (\<exists>pub. LidarPacketCb demo_layout16 (demo_decoder16 63) demo_packet16
               = Some (Inr ((demo_decoder16 63)\<lparr>bufferM := []\<rparr>, Some pub))
          \<and> cols (image_msg pub) = 1024)
   \<and> ConfigCb demo_layout demo_decoder (demo_config\<lparr>image_width := - 3\<rparr>)
        = Inr (demo_decoder_neg, Some length_error)
   \<and> image_width (configM demo_decoder_neg) < 0
   \<and> int (Suc (length (bufferM demo_decoder_neg)) * columns_per_buffer demo_layout)
        < 2 ^ 64 + image_width (configM demo_decoder_neg)
   \<and> LidarPacketCb demo_layout demo_decoder_neg demo_packet
        = Some (Inr (demo_decoder_neg\<lparr>bufferM := [demo_packet]\<rparr>, None))
   \<and> image_width (configM demo_decoder_neg)
        \<le> int (length (bufferM demo_decoder_neg @ [demo_packet]) * columns_per_buffer demo_layout)"
proof -
  have h: "0 \<le> image_width (configM (demo_decoder16 63))"
    by (simp add: demo_decoder16_def demo_decoder_def)
  have k: "columns_per_buffer demo_layout16 = 16 \<and> image_width (configM (demo_decoder16 63)) = 1024"
    by (simp add: demo_decoder16_def demo_decoder_def demo_layout16_def)
  have l: "length (bufferM (demo_decoder16 63)) = 63"
    by (simp add: demo_decoder16_def demo_decoder_def)
  have o: "sensor_ok demo_layout16 (infoM (demo_decoder16 63))"
    by (simp add: sensor_ok_def demo_decoder16_def demo_decoder_def demo_layout16_def
        demo_layout_def demo_info_def)
  have q: "packets_ok demo_layout16 (bufferM (demo_decoder16 63) @ [demo_packet16])"
    by (simp add: packets_ok_def list_all_iff demo_decoder16_def demo_decoder_def
        demo_layout16_def demo_layout_def demo_packet16_def)
  from LidarPacketCb_sweep_completion[of "demo_decoder16 63" demo_layout16 demo_packet16] h k l o q
  have e: "\<exists>pub. LidarPacketCb demo_layout16 (demo_decoder16 63) demo_packet16
               = Some (Inr ((demo_decoder16 63)\<lparr>bufferM := []\<rparr>, Some pub))
          \<and> cols (image_msg pub) = 1024"
    by blast
  have c: "ConfigCb demo_layout demo_decoder (demo_config\<lparr>image_width := - 3\<rparr>)
        = Inr (demo_decoder_neg, Some length_error)"
    by (simp add: ConfigCb_def normalize_def std_min_def Let_def demo_decoder_neg_def
        demo_decoder_def demo_config_def demo_layout_def sdiv_neg)
  have n: "image_width (configM demo_decoder_neg) < 0"
    "int (Suc (length (bufferM demo_decoder_neg)) * columns_per_buffer demo_layout)
        < 2 ^ 64 + image_width (configM demo_decoder_neg)"
    by (simp_all add: demo_decoder_neg_def demo_decoder_def demo_config_def demo_layout_def)
  have b: "bufferM demo_decoder_neg @ [demo_packet] = [demo_packet]"
    by (simp add: demo_decoder_neg_def demo_decoder_def)
  from LidarPacketCb_sweep_completion[of demo_decoder_neg demo_layout demo_packet] n
  have "LidarPacketCb demo_layout demo_decoder_neg demo_packet
        = Some (Inr (demo_decoder_neg\<lparr>bufferM := bufferM demo_decoder_neg @ [demo_packet]\<rparr>, None))
      \<and> image_width (configM demo_decoder_neg)
        \<le> int (length (bufferM demo_decoder_neg @ [demo_packet]) * columns_per_buffer demo_layout)"
    by blast
  then have f: "LidarPacketCb demo_layout demo_decoder_neg demo_packet
        = Some (Inr (demo_decoder_neg\<lparr>bufferM := [demo_packet]\<rparr>, None))"
    "image_width (configM demo_decoder_neg)
        \<le> int (length (bufferM demo_decoder_neg @ [demo_packet]) * columns_per_buffer demo_layout)"
    unfolding b by simp_all
  from h k l o q e c n f show ?thesis by blast
qed


subsection \<open>Cells of valid columns\<close>

text \<open>
  Claim C2. For a buffer of full-size packets, a valid column \<open>icol\<close> of the packet at
  position \<open>ibuf\<close> and a beam row \<open>beam\<close>, the image is built and its cell at row \<open>beam\<close>
  and column \<open>ibuf * columns_per_buffer + icol\<close> holds the range times the range factor,
  the reflectivity, and the horizontal angle of the column plus the azimuth angle of the
  beam.
\<close>

theorem build_image_valid_column:
  assumes "pixels_per_column L \<le> 255"
    and "pixels_per_column L \<le> length (beam_azimuth_angles info)"
    and "packets_ok L buffer"
    and "ibuf < length buffer" "icol < columns_per_buffer L"
    and "col_valid L (nth_col L icol (buffer ! ibuf)) = 0xffffffff"
    and "beam < pixels_per_column L"
  shows "\<exists>img. build_image L (beam_azimuth_angles info) buffer = Some (Inr img)
    \<and> rows img = pixels_per_column L \<and> cols img = length buffer * columns_per_buffer L
    \<and> at_get img beam (ibuf * columns_per_buffer L + icol) =
        (fmul (float_of_word (px_range L (nth_px L beam (nth_col L icol (buffer ! ibuf))))) range_factor,
         float_of_word (px_reflectivity L (nth_px L beam (nth_col L icol (buffer ! ibuf)))),
         fadd (col_h_angle L (nth_col L icol (buffer ! ibuf))) (beam_azimuth_angles info ! beam))"
proof -
  let ?c = "ibuf * columns_per_buffer L + icol"
  have n: "0 < columns_per_buffer L" using assms(5) by simp
  have p: "\<forall>q\<in>set buffer. packet_bytes L \<le> length q"
    using assms(3) by (simp add: packets_ok_def list_all_iff)
  from build_image_spec[OF assms(1,2) n p] obtain img where
    b: "build_image L (beam_azimuth_angles info) buffer = Some (Inr img)"
    and r: "rows img = pixels_per_column L" "cols img = length buffer * columns_per_buffer L"
    and g: "\<forall>r c. c < length buffer * columns_per_buffer L \<longrightarrow> at_get img r c =
            (if r < pixels_per_column L \<and> cell_valid L buffer c
             then cell_value L (beam_azimuth_angles info) buffer r c else Scalar kNaNF)"
    by blast
  have c: "?c < length buffer * columns_per_buffer L"
    using global_column_less[OF assms(5,4)] .
  have v: "cell_valid L buffer ?c"
    using assms(5,6) by (simp add: cell_valid_def column_valid_def)
  have "at_get img beam ?c = cell_value L (beam_azimuth_angles info) buffer beam ?c"
    using g[rule_format, OF c, of beam] v assms(7) by simp
  then show ?thesis
    using b r assms(5) by (simp add: cell_value_def px_value_def)
qed

text \<open>Beam 1 of column 0 of the demonstration packet: range byte 30, encoder byte 10.\<close>

theorem build_image_valid_column_witness:
  "pixels_per_column demo_layout \<le> 255
   \<and> pixels_per_column demo_layout \<le> length (beam_azimuth_angles demo_info)
   \<and> packets_ok demo_layout [demo_packet]
   \<and> (0::nat) < length [demo_packet] \<and> (0::nat) < columns_per_buffer demo_layout
   \<and> col_valid demo_layout (nth_col demo_layout 0 ([demo_packet] ! 0)) = 0xffffffff
   \<and> (1::nat) < pixels_per_column demo_layout
   \<and> (\<exists>img. build_image demo_layout (beam_azimuth_angles demo_info) [demo_packet] = Some (Inr img)
        \<and> at_get img 1 0 = (Fin (3 / 100), Fin 30, Fin 10))"
proof -
  have a: "pixels_per_column demo_layout \<le> 255"
    "pixels_per_column demo_layout \<le> length (beam_azimuth_angles demo_info)"
    "packets_ok demo_layout [demo_packet]"
    "(0::nat) < length [demo_packet]" "(0::nat) < columns_per_buffer demo_layout"
    "col_valid demo_layout (nth_col demo_layout 0 ([demo_packet] ! 0)) = 0xffffffff"
    "(1::nat) < pixels_per_column demo_layout"
    by (simp_all add: demo_accessors demo_info_def packets_ok_def demo_packet_def first_byte_def)
  from build_image_valid_column[OF a] obtain img where
    b: "build_image demo_layout (beam_azimuth_angles demo_info) [demo_packet] = Some (Inr img)"
    and g: "at_get img 1 (0 * columns_per_buffer demo_layout + 0) =
        (fmul (float_of_word (px_range demo_layout (nth_px demo_layout 1 (nth_col demo_layout 0 ([demo_packet] ! 0))))) range_factor,
         float_of_word (px_reflectivity demo_layout (nth_px demo_layout 1 (nth_col demo_layout 0 ([demo_packet] ! 0)))),
         fadd (col_h_angle demo_layout (nth_col demo_layout 0 ([demo_packet] ! 0))) (beam_azimuth_angles demo_info ! 1))"
    by blast
  have "at_get img 1 0 = (Fin (3 / 100), Fin 30, Fin 10)"
    using g by (simp add: demo_accessors demo_info_def demo_packet_def first_byte_def
        float_of_word_def range_factor_def)
  with a b show ?thesis by blast
qed


subsection \<open>The projection formula\<close>

text \<open>
  Claim C3. For a cell at row \<open>r\<close> and column \<open>c\<close> holding range \<open>d\<close>, reflectivity
  \<open>rfl\<close> and azimuth \<open>theta\<close>, with \<open>d\<close> not the NaN sentinel, the projector returns a
  cloud that contains the point \<open>x = d cos \<phi> cos \<theta>\<close>, \<open>y = - (d cos \<phi> sin \<theta>)\<close>,
  \<open>z = d sin \<phi>\<close>, \<open>intensity = rfl\<close> with \<open>\<phi>\<close> the altitude angle of row \<open>r\<close>; in
  organized mode it stands at position \<open>r * cols + c\<close>. For range 10, altitude 0 and
  azimuth 0 the point is (10, 0, 0); for azimuth \<open>\<pi>/2\<close> it is (0, -10, 0).
\<close>

theorem ToCloud_projection:
  assumes "rows img \<le> length altitude_angles" "r < rows img" "c < cols img"
    and "at_get img r c = (d, rfl, theta)" "\<not> isnan d"
  shows "\<exists>cloud. ToCloud img altitude_angles org = Inr cloud
    \<and> \<lparr>p_x = fmul (fmul d (fcos (altitude_angles ! r))) (fcos theta),
        p_y = fneg (fmul (fmul d (fcos (altitude_angles ! r))) (fsin theta)),
        p_z = fmul d (fsin (altitude_angles ! r)),
        p_intensity = rfl\<rparr> \<in> set (points cloud)
    \<and> (org \<longrightarrow> points cloud ! (r * cols img + c) =
         \<lparr>p_x = fmul (fmul d (fcos (altitude_angles ! r))) (fcos theta),
          p_y = fneg (fmul (fmul d (fcos (altitude_angles ! r))) (fsin theta)),
          p_z = fmul d (fsin (altitude_angles ! r)),
          p_intensity = rfl\<rparr>)
    \<and> (d = Fin 10 \<and> altitude_angles ! r = Fin 0 \<and> theta = Fin 0 \<longrightarrow>
         \<lparr>p_x = Fin 10, p_y = Fin 0, p_z = Fin 0, p_intensity = rfl\<rparr> \<in> set (points cloud))
    \<and> (d = Fin 10 \<and> altitude_angles ! r = Fin 0 \<and> theta = Fin (pi / 2) \<longrightarrow>
         \<lparr>p_x = Fin 0, p_y = Fin (- 10), p_z = Fin 0, p_intensity = rfl\<rparr> \<in> set (points cloud))"
proof -
  have "\<not> isnan (fst (at_get img r c))" using assms(4,5) by simp
  from ToCloud_cell[OF assms(1,2,3) this, of org] obtain cloud where
    t: "ToCloud img altitude_angles org = Inr cloud"
    and m: "project (altitude_angles ! r) (at_get img r c) \<in> set (points cloud)"
    and o: "org \<longrightarrow> points cloud ! (r * cols img + c) = project (altitude_angles ! r) (at_get img r c)"
    by blast
  let ?p = "\<lparr>p_x = fmul (fmul d (fcos (altitude_angles ! r))) (fcos theta),
        p_y = fneg (fmul (fmul d (fcos (altitude_angles ! r))) (fsin theta)),
        p_z = fmul d (fsin (altitude_angles ! r)),
        p_intensity = rfl\<rparr>"
  have e: "project (altitude_angles ! r) (at_get img r c) = ?p"
    by (simp add: assms(4) project_eq)
  have a: "d = Fin 10 \<and> altitude_angles ! r = Fin 0 \<and> theta = Fin 0 \<longrightarrow>
      ?p = \<lparr>p_x = Fin 10, p_y = Fin 0, p_z = Fin 0, p_intensity = rfl\<rparr>"
    by simp
  have b: "d = Fin 10 \<and> altitude_angles ! r = Fin 0 \<and> theta = Fin (pi / 2) \<longrightarrow>
      ?p = \<lparr>p_x = Fin 0, p_y = Fin (- 10), p_z = Fin 0, p_intensity = rfl\<rparr>"
    by simp
  from t m o a b show ?thesis unfolding e by metis
qed

text \<open>The one-cell image with azimuth \<open>\<pi>/2\<close>, unorganized.\<close>

theorem ToCloud_projection_witness:
  "rows demo_cell_image \<le> length [Fin 0] \<and> 0 < rows demo_cell_image \<and> 0 < cols demo_cell_image
   \<and> at_get demo_cell_image 0 0 = (Fin 10, Fin 5, Fin (pi / 2)) \<and> \<not> isnan (Fin 10)
   \<and> (\<exists>cloud. ToCloud demo_cell_image [Fin 0] False = Inr cloud
        \<and> \<lparr>p_x = Fin 0, p_y = Fin (- 10), p_z = Fin 0, p_intensity = Fin 5\<rparr> \<in> set (points cloud))"
proof -
  have a: "rows demo_cell_image \<le> length [Fin 0]" "0 < rows demo_cell_image"
    "0 < cols demo_cell_image" "at_get demo_cell_image 0 0 = (Fin 10, Fin 5, Fin (pi / 2))"
    "\<not> isnan (Fin 10)"
    by (simp_all add: demo_cell_image_def Mat_init_def at_get_def)
  from ToCloud_projection[OF a, of False] a show ?thesis by auto
qed


subsection \<open>Organized and unorganized clouds\<close>

text \<open>
  Claim C4. For an image with \<open>R\<close> rows and \<open>C\<close> columns whose altitude vector covers
  every row: in organized mode the projector returns \<open>R * C\<close> points, the point at
  position \<open>r * C + c\<close> being the all-NaN placeholder when the cell at \<open>(r, c)\<close> is empty,
  and records width \<open>C\<close> and height \<open>R\<close>; in unorganized mode it returns the projections
  of the non-empty cells in scan order (row by row), as many points as there are cells
  whose range is not NaN, and records height 1 and the number of points as width.
\<close>

theorem ToCloud_shape:
  assumes "rows img \<le> length altitude_angles"
  shows "(\<exists>cloud. ToCloud img altitude_angles True = Inr cloud
            \<and> length (points cloud) = rows img * cols img
            \<and> width cloud = cols img \<and> height cloud = rows img
            \<and> (\<forall>r c. r < rows img \<and> c < cols img \<and> isnan (fst (at_get img r c)) \<longrightarrow>
                  points cloud ! (r * cols img + c)
                    = \<lparr>p_x = kNaNF, p_y = kNaNF, p_z = kNaNF, p_intensity = kNaNF\<rparr>))
       \<and> (\<exists>cloud. ToCloud img altitude_angles False = Inr cloud
            \<and> length (points cloud)
                = card {rc. fst rc < rows img \<and> snd rc < cols img
                            \<and> \<not> isnan (fst (at_get img (fst rc) (snd rc)))}
            \<and> points cloud
                = map (\<lambda>rc. project (altitude_angles ! fst rc) (at_get img (fst rc) (snd rc)))
                    (filter (\<lambda>rc. \<not> isnan (fst (at_get img (fst rc) (snd rc))))
                       (List.product [0..<rows img] [0..<cols img]))
            \<and> height cloud = 1 \<and> width cloud = length (points cloud))"
proof -
  let ?f = "\<lambda>rc. if is_empty_cell img rc then nan_point
                 else project (altitude_angles ! fst rc) (at_get img (fst rc) (snd rc))"
  have "\<forall>r c. r < rows img \<and> c < cols img \<and> isnan (fst (at_get img r c)) \<longrightarrow>
         map ?f (scan_order img) ! (r * cols img + c)
           = \<lparr>p_x = kNaNF, p_y = kNaNF, p_z = kNaNF, p_intensity = kNaNF\<rparr>"
  proof (intro allI impI)
    fix r c assume h: "r < rows img \<and> c < cols img \<and> isnan (fst (at_get img r c))"
    then have n: "r * cols img + c < rows img * cols img"
      "scan_order img ! (r * cols img + c) = (r, c)"
      using scan_order_nth[of r img c] by simp_all
    then show "map ?f (scan_order img) ! (r * cols img + c)
           = \<lparr>p_x = kNaNF, p_y = kNaNF, p_z = kNaNF, p_intensity = kNaNF\<rparr>"
      using h by (simp add: scan_order_length is_empty_cell_def nan_point_def)
  qed
  then have A: "\<exists>cloud. ToCloud img altitude_angles True = Inr cloud
            \<and> length (points cloud) = rows img * cols img
            \<and> width cloud = cols img \<and> height cloud = rows img
            \<and> (\<forall>r c. r < rows img \<and> c < cols img \<and> isnan (fst (at_get img r c)) \<longrightarrow>
                  points cloud ! (r * cols img + c)
                    = \<lparr>p_x = kNaNF, p_y = kNaNF, p_z = kNaNF, p_intensity = kNaNF\<rparr>)"
    by (simp add: ToCloud_organized[OF assms] scan_order_length)
  have B: "\<exists>cloud. ToCloud img altitude_angles False = Inr cloud
            \<and> length (points cloud)
                = card {rc. fst rc < rows img \<and> snd rc < cols img
                            \<and> \<not> isnan (fst (at_get img (fst rc) (snd rc)))}
            \<and> points cloud
                = map (\<lambda>rc. project (altitude_angles ! fst rc) (at_get img (fst rc) (snd rc)))
                    (filter (\<lambda>rc. \<not> isnan (fst (at_get img (fst rc) (snd rc))))
                       (List.product [0..<rows img] [0..<cols img]))
            \<and> height cloud = 1 \<and> width cloud = length (points cloud)"
    using nonempty_count[of img]
    by (simp add: ToCloud_unorganized[OF assms] is_empty_cell_def scan_order_def)
  from A B show ?thesis by blast
qed

text \<open>The two-by-two image with one empty cell: four points organized, three otherwise.\<close>

theorem ToCloud_shape_witness:
  "rows demo_image \<le> length [Fin 0, Fin 0]
   \<and> (\<exists>cloud. ToCloud demo_image [Fin 0, Fin 0] True = Inr cloud
        \<and> length (points cloud) = 4 \<and> width cloud = 2 \<and> height cloud = 2
        \<and> points cloud ! 1 = \<lparr>p_x = NaN, p_y = NaN, p_z = NaN, p_intensity = NaN\<rparr>)
   \<and> (\<exists>cloud. ToCloud demo_image [Fin 0, Fin 0] False = Inr cloud
        \<and> length (points cloud) = 3 \<and> height cloud = 1 \<and> width cloud = 3)"
proof -
  have a: "rows demo_image \<le> length [Fin 0, Fin 0]" by (simp add: demo_image_def)
  have r: "rows demo_image = 2" "cols demo_image = 2" by (simp_all add: demo_image_def)
  have e: "isnan (fst (at_get demo_image 0 1))"
    by (simp add: demo_image_def at_get_def Scalar_def kNaNF_def)
  have p: "List.product [0..<2] [0..<2] = [(0, 0), (0, 1), (1, 0), (1::nat, 1::nat)]"
    by (simp add: upt_rec)
  have f: "filter (\<lambda>rc. \<not> isnan (fst (at_get demo_image (fst rc) (snd rc))))
             (List.product [0..<rows demo_image] [0..<cols demo_image])
           = [(0, 0), (1, 0), (1, 1)]"
    unfolding r p by (simp add: demo_image_def at_get_def Scalar_def kNaNF_def)
  from ToCloud_shape[OF a] obtain c1 c2 where
    o: "ToCloud demo_image [Fin 0, Fin 0] True = Inr c1"
      "length (points c1) = rows demo_image * cols demo_image"
      "width c1 = cols demo_image" "height c1 = rows demo_image"
      "\<forall>r c. r < rows demo_image \<and> c < cols demo_image \<and> isnan (fst (at_get demo_image r c)) \<longrightarrow>
                  points c1 ! (r * cols demo_image + c)
                    = \<lparr>p_x = kNaNF, p_y = kNaNF, p_z = kNaNF, p_intensity = kNaNF\<rparr>"
    and u: "ToCloud demo_image [Fin 0, Fin 0] False = Inr c2"
      "points c2
         = map (\<lambda>rc. project ([Fin 0, Fin 0] ! fst rc) (at_get demo_image (fst rc) (snd rc)))
             (filter (\<lambda>rc. \<not> isnan (fst (at_get demo_image (fst rc) (snd rc))))
                (List.product [0..<rows demo_image] [0..<cols demo_image]))"
      "height c2 = 1" "width c2 = length (points c2)"
    by blast
  have "points c1 ! (0 * cols demo_image + 1)
          = \<lparr>p_x = kNaNF, p_y = kNaNF, p_z = kNaNF, p_intensity = kNaNF\<rparr>"
    using o(5)[rule_format, of 0 1] e r by simp
  then have n: "points c1 ! 1 = \<lparr>p_x = NaN, p_y = NaN, p_z = NaN, p_intensity = NaN\<rparr>"
    by (simp add: kNaNF_def)
  have l: "length (points c2) = 3" unfolding u(2) f by simp
  from a o(1-4) n u(1,3,4) l r show ?thesis by simp
qed


subsection \<open>Short packets\<close>

text \<open>
  Claim C5, as amended. The callback looks at no packet's length: whatever its bytes, an
  arriving packet is appended to the buffer and counted, and while the sweep is not
  complete it stays buffered; when the arrival completes a sweep whose packets all have
  the full size (and the calibration covers every beam), the sweep is decoded and
  published without a fault and the buffer is cleared.
\<close>

theorem LidarPacketCb_accepts_every_packet:
  "(size_less_int (Suc (length (bufferM s)) * columns_per_buffer L) (image_width (configM s)) \<longrightarrow>
      LidarPacketCb L s p = Some (Inr (s\<lparr>bufferM := bufferM s @ [p]\<rparr>, None)))
   \<and> (\<not> size_less_int (Suc (length (bufferM s)) * columns_per_buffer L) (image_width (configM s))
        \<and> sensor_ok L (infoM s) \<and> packets_ok L (bufferM s @ [p]) \<longrightarrow>
      (\<exists>pub. LidarPacketCb L s p = Some (Inr (s\<lparr>bufferM := []\<rparr>, Some pub))
          \<and> rows (image_msg pub) = pixels_per_column L
          \<and> cols (image_msg pub) = Suc (length (bufferM s)) * columns_per_buffer L))"
proof (intro conjI impI)
  assume "size_less_int (Suc (length (bufferM s)) * columns_per_buffer L) (image_width (configM s))"
  then show "LidarPacketCb L s p = Some (Inr (s\<lparr>bufferM := bufferM s @ [p]\<rparr>, None))"
    by (rule LidarPacketCb_accumulates)
next
  assume h: "\<not> size_less_int (Suc (length (bufferM s)) * columns_per_buffer L) (image_width (configM s))
        \<and> sensor_ok L (infoM s) \<and> packets_ok L (bufferM s @ [p])"
  then have a: "\<not> size_less_int (Suc (length (bufferM s)) * columns_per_buffer L) (image_width (configM s))"
    and b: "sensor_ok L (infoM s)" and c: "packets_ok L (bufferM s @ [p])"
    by simp_all
  from LidarPacketCb_emits[OF a b c] obtain img cloud where
    "rows img = pixels_per_column L"
    "cols img = Suc (length (bufferM s)) * columns_per_buffer L"
    "LidarPacketCb L s p =
        Some (Inr (s\<lparr>bufferM := []\<rparr>,
          Some \<lparr>image_msg = img,
                cinfo_msg = \<lparr>cinfo_height = rows img, cinfo_width = cols img,
                              cinfo_D = beam_altitude_angles (infoM s)\<rparr>,
                cloud_msg = cloud\<rparr>))"
    by blast
  then show "\<exists>pub. LidarPacketCb L s p = Some (Inr (s\<lparr>bufferM := []\<rparr>, Some pub))
          \<and> rows (image_msg pub) = pixels_per_column L
          \<and> cols (image_msg pub) = Suc (length (bufferM s)) * columns_per_buffer L"
    by simp
qed

text \<open>
  An empty packet arrives first and is buffered; the full-size packet that follows
  completes the sweep of four columns.
\<close>

theorem LidarPacketCb_accepts_every_packet_witness:
  "size_less_int (Suc (length (bufferM demo_decoder)) * columns_per_buffer demo_layout)
      (image_width (configM demo_decoder))
   \<and> LidarPacketCb demo_layout demo_decoder [] = Some (Inr (demo_decoder\<lparr>bufferM := [[]]\<rparr>, None))
   \<and> \<not> size_less_int (Suc (length (bufferM demo_decoder1)) * columns_per_buffer demo_layout)
      (image_width (configM demo_decoder1))
   \<and> sensor_ok demo_layout (infoM demo_decoder1)
   \<and> packets_ok demo_layout (bufferM demo_decoder1 @ [demo_packet])
   \<and> (\<exists>pub. LidarPacketCb demo_layout demo_decoder1 demo_packet
               = Some (Inr (demo_decoder1\<lparr>bufferM := []\<rparr>, Some pub))
          \<and> cols (image_msg pub) = 4)"
proof -
  have a: "size_less_int (Suc (length (bufferM demo_decoder)) * columns_per_buffer demo_layout)
      (image_width (configM demo_decoder))"
    by (simp add: size_less_int_def demo_decoder_def demo_config_def demo_accessors)
  have e: "\<not> size_less_int (Suc (length (bufferM demo_decoder1)) * columns_per_buffer demo_layout)
             (image_width (configM demo_decoder1))"
    by (simp add: size_less_int_def demo_decoder1_def demo_decoder_def demo_config_def demo_accessors)
  have so: "sensor_ok demo_layout (infoM demo_decoder1)"
    by (simp add: sensor_ok_def demo_decoder1_def demo_decoder_def demo_info_def demo_accessors)
  have pk: "packets_ok demo_layout (bufferM demo_decoder1 @ [demo_packet])"
    by (simp add: packets_ok_def demo_decoder1_def demo_decoder_def demo_packet_def demo_accessors)
  have n: "Suc (length (bufferM demo_decoder1)) * columns_per_buffer demo_layout = 4"
    by (simp add: demo_decoder1_def demo_decoder_def demo_accessors)
  from LidarPacketCb_accepts_every_packet[of demo_decoder demo_layout "[]"] a
  have x: "LidarPacketCb demo_layout demo_decoder [] = Some (Inr (demo_decoder\<lparr>bufferM := [[]]\<rparr>, None))"
    by (simp add: demo_decoder_def)
  from LidarPacketCb_accepts_every_packet[of demo_decoder1 demo_layout demo_packet] e so pk n
  have y: "\<exists>pub. LidarPacketCb demo_layout demo_decoder1 demo_packet
               = Some (Inr (demo_decoder1\<lparr>bufferM := []\<rparr>, Some pub))
          \<and> cols (image_msg pub) = 4"
    by auto
  from a x e so pk y show ?thesis by blast
qed

text \<open>
  Claim C5 as stated fails: the empty packet, shorter than the eight bytes of a packet of
  the demonstration layout, is not rejected but buffered, and the sweep it is part of is
  decoded with a read outside the packet.
\<close>

theorem LidarPacketCb_short_packet_counterexample:
  "length ([] :: PacketMsg) < packet_bytes demo_layout
   \<and> LidarPacketCb demo_layout demo_decoder [] = Some (Inr (demo_decoder_short, None))
   \<and> LidarPacketCb demo_layout demo_decoder_short demo_packet = Some (Inl OutOfBounds)"
  by (simp add: LidarPacketCb_def size_less_int_def Let_def demo_decoder_short_def
      demo_decoder_def demo_config_def demo_accessors build_image_def packet_body_def
      upt_rec)


subsection \<open>Configuration updates and the buffer\<close>

text \<open>
  Claim C6. A configuration update that returns has emptied the buffer, and it publishes
  nothing; its result, and with it every later callback of a run, is the same whatever
  packets were buffered before the update, so no sweep published after an update holds a
  packet from before it; and every sweep a packet arrival publishes is built from the
  buffer and the arriving packet and has at least \<open>image_width\<close> columns, so no partial
  sweep is published.
\<close>

theorem ConfigCb_clears_buffer:
  "(\<forall>s' e. ConfigCb L s config = Inr (s', e) \<longrightarrow> bufferM s' = [])
   \<and> ConfigCb L (s\<lparr>bufferM := old\<rparr>) config = ConfigCb L s config
   \<and> run L (s\<lparr>bufferM := old\<rparr>) (Reconfigure config # evs) = run L s (Reconfigure config # evs)
   \<and> (\<forall>s' pub. LidarPacketCb L s p = Some (Inr (s', Some pub)) \<longrightarrow>
         build_image L (beam_azimuth_angles (infoM s)) (bufferM s @ [p]) = Some (Inr (image_msg pub))
         \<and> image_width (configM s) \<le> int (cols (image_msg pub)))"
proof -
  have "\<forall>s' pub. LidarPacketCb L s p = Some (Inr (s', Some pub)) \<longrightarrow>
         build_image L (beam_azimuth_angles (infoM s)) (bufferM s @ [p]) = Some (Inr (image_msg pub))
         \<and> image_width (configM s) \<le> int (cols (image_msg pub))"
  proof (intro allI impI)
    fix s' pub
    assume h: "LidarPacketCb L s p = Some (Inr (s', Some pub))"
    from LidarPacketCb_cases[OF h] emitted_at_least_width[OF h]
    show "build_image L (beam_azimuth_angles (infoM s)) (bufferM s @ [p]) = Some (Inr (image_msg pub))
         \<and> image_width (configM s) \<le> int (cols (image_msg pub))"
      by auto
  qed
  then show ?thesis
    using ConfigCb_buffer(1) by (simp add: ConfigCb_old_buffer)
qed

text \<open>
  An update of a decoder that holds one packet, and the arrival that completes a sweep of
  four columns.
\<close>

theorem ConfigCb_clears_buffer_witness:
  "ConfigCb demo_layout demo_decoder1 demo_config = Inr (demo_decoder, None)
   \<and> bufferM demo_decoder1 = [demo_packet] \<and> bufferM demo_decoder = []
   \<and> (\<exists>pub. LidarPacketCb demo_layout demo_decoder1 demo_packet
               = Some (Inr (demo_decoder1\<lparr>bufferM := []\<rparr>, Some pub))
          \<and> image_width (configM demo_decoder1) \<le> int (cols (image_msg pub)))"
proof -
  have c: "ConfigCb demo_layout demo_decoder1 demo_config = Inr (demo_decoder, None)"
    by (simp add: ConfigCb_def normalize_def std_min_def Let_def demo_decoder1_def
        demo_decoder_def demo_config_def demo_accessors sdiv_nonneg)
  have b: "bufferM demo_decoder1 = [demo_packet]" "bufferM demo_decoder = []"
    by (simp_all add: demo_decoder1_def demo_decoder_def)
  have e: "\<not> size_less_int (Suc (length (bufferM demo_decoder1)) * columns_per_buffer demo_layout)
             (image_width (configM demo_decoder1))"
    by (simp add: size_less_int_def demo_decoder1_def demo_decoder_def demo_config_def demo_accessors)
  have so: "sensor_ok demo_layout (infoM demo_decoder1)"
    by (simp add: sensor_ok_def demo_decoder1_def demo_decoder_def demo_info_def demo_accessors)
  have pk: "packets_ok demo_layout (bufferM demo_decoder1 @ [demo_packet])"
    by (simp add: packets_ok_def demo_decoder1_def demo_decoder_def demo_packet_def demo_accessors)
  from LidarPacketCb_emits[OF e so pk] obtain pub where
    l: "LidarPacketCb demo_layout demo_decoder1 demo_packet
               = Some (Inr (demo_decoder1\<lparr>bufferM := []\<rparr>, Some pub))"
    by blast
  from ConfigCb_clears_buffer[where L = demo_layout and s = demo_decoder1 and p = demo_packet
      and config = demo_config and old = "[]" and evs = "[]"] l
  have "image_width (configM demo_decoder1) \<le> int (cols (image_msg pub))"
    by blast
  with c b l show ?thesis by blast
qed


subsection \<open>Cells of invalid columns\<close>

text \<open>
  Claim C7, as the code has it. For a decodable buffer and a column \<open>icol\<close> of the packet
  at position \<open>ibuf\<close> whose validity marker is not all ones, the image is built without a
  fault and every cell of the column \<open>ibuf * columns_per_buffer + icol\<close> keeps the value
  the image was created with, which is NaN in the range channel and 0 in the reflectivity
  and azimuth channels; the unorganized cloud is made of the non-empty cells of the other
  columns, so the column contributes no point.
\<close>

theorem invalid_column_cells:
  assumes "sensor_ok L info" "packets_ok L buffer"
    and "ibuf < length buffer" "icol < columns_per_buffer L"
    and "col_valid L (nth_col L icol (buffer ! ibuf)) \<noteq> 0xffffffff"
  shows "\<exists>img cloud. build_image L (beam_azimuth_angles info) buffer = Some (Inr img)
    \<and> ToCloud img (beam_altitude_angles info) False = Inr cloud
    \<and> (\<forall>beam. beam < pixels_per_column L \<longrightarrow>
          at_get img beam (ibuf * columns_per_buffer L + icol) = (NaN, Fin 0, Fin 0))
    \<and> points cloud
        = map (\<lambda>rc. project (beam_altitude_angles info ! fst rc) (at_get img (fst rc) (snd rc)))
            (filter (\<lambda>rc. snd rc \<noteq> ibuf * columns_per_buffer L + icol
                          \<and> \<not> isnan (fst (at_get img (fst rc) (snd rc))))
               (List.product [0..<rows img] [0..<cols img]))"
proof -
  let ?c = "ibuf * columns_per_buffer L + icol"
  from assms(1,2) have a: "pixels_per_column L \<le> 255"
    "pixels_per_column L \<le> length (beam_azimuth_angles info)"
    "0 < columns_per_buffer L" "\<forall>q\<in>set buffer. packet_bytes L \<le> length q"
    by (simp_all add: sensor_ok_def packets_ok_def list_all_iff)
  from build_image_spec[OF a] obtain img where
    b: "build_image L (beam_azimuth_angles info) buffer = Some (Inr img)"
    and r: "rows img = pixels_per_column L" "cols img = length buffer * columns_per_buffer L"
    and g: "\<forall>r c. c < length buffer * columns_per_buffer L \<longrightarrow> at_get img r c =
            (if r < pixels_per_column L \<and> cell_valid L buffer c
             then cell_value L (beam_azimuth_angles info) buffer r c else Scalar kNaNF)"
    by blast
  have c: "?c < length buffer * columns_per_buffer L"
    using global_column_less[OF assms(4,3)] .
  have v: "\<not> cell_valid L buffer ?c"
    using assms(4,5) by (simp add: cell_valid_def column_valid_def)
  have e: "\<And>beam. at_get img beam ?c = (NaN, Fin 0, Fin 0)"
    using g[rule_format, OF c] v by (simp add: Scalar_def kNaNF_def)
  have l: "rows img \<le> length (beam_altitude_angles info)"
    using r assms(1) by (simp add: sensor_ok_def)
  have f: "filter (\<lambda>rc. \<not> is_empty_cell img rc) (scan_order img)
      = filter (\<lambda>rc. snd rc \<noteq> ?c \<and> \<not> isnan (fst (at_get img (fst rc) (snd rc))))
          (List.product [0..<rows img] [0..<cols img])"
    unfolding scan_order_def
    by (rule filter_cong) (auto simp: is_empty_cell_def e)
  show ?thesis
    using b e by (simp add: ToCloud_unorganized[OF l] f)
qed

text \<open>
  The demonstration packet: its column 1 is invalid, and the cell at row 0 of that column
  is not NaN in all channels.
\<close>

theorem invalid_column_cells_witness:
  "sensor_ok demo_layout demo_info \<and> packets_ok demo_layout [demo_packet]
   \<and> (0::nat) < length [demo_packet] \<and> (1::nat) < columns_per_buffer demo_layout
   \<and> col_valid demo_layout (nth_col demo_layout 1 ([demo_packet] ! 0)) \<noteq> 0xffffffff
   \<and> (0::nat) < pixels_per_column demo_layout
   \<and> (\<exists>img. build_image demo_layout (beam_azimuth_angles demo_info) [demo_packet] = Some (Inr img)
        \<and> at_get img 0 1 = (NaN, Fin 0, Fin 0)
        \<and> at_get img 0 1 \<noteq> (kNaNF, kNaNF, kNaNF))"
proof -
  have a: "sensor_ok demo_layout demo_info" "packets_ok demo_layout [demo_packet]"
    "(0::nat) < length [demo_packet]" "(1::nat) < columns_per_buffer demo_layout"
    "col_valid demo_layout (nth_col demo_layout 1 ([demo_packet] ! 0)) \<noteq> 0xffffffff"
    by (simp_all add: sensor_ok_def packets_ok_def demo_accessors demo_info_def demo_packet_def
        first_byte_def)
  have p: "(0::nat) < pixels_per_column demo_layout" by (simp add: demo_accessors)
  from invalid_column_cells[OF a] obtain img where
    b: "build_image demo_layout (beam_azimuth_angles demo_info) [demo_packet] = Some (Inr img)"
    and g: "\<forall>beam. beam < pixels_per_column demo_layout \<longrightarrow>
          at_get img beam (0 * columns_per_buffer demo_layout + 1) = (NaN, Fin 0, Fin 0)"
    by blast
  from g[rule_format, OF p] have "at_get img 0 1 = (NaN, Fin 0, Fin 0)" by simp
  with a p b show ?thesis by (auto simp: kNaNF_def)
qed


subsection \<open>Normalisation of the configuration\<close>

text \<open>
  Claim C8, as amended. Whenever the configuration update returns a state, the stored
  configuration is the incoming one normalised: if \<open>min_range > max_range\<close> then both
  ranges equal the incoming \<open>max_range\<close>; the stored \<open>image_width\<close> is a multiple of
  \<open>columns_per_buffer\<close>; a non-negative width is rounded down to the nearest multiple (it
  loses less than \<open>columns_per_buffer\<close>; 1000 becomes 992 for 16 columns per packet), and
  a negative width is rounded towards zero, the truncating division of C++.
\<close>

theorem ConfigCb_normalizes:
  assumes "ConfigCb L s config = Inr (s', e)"
  shows "(fless (max_range config) (min_range config) \<longrightarrow>
            min_range (configM s') = max_range config \<and> max_range (configM s') = max_range config)
       \<and> int (columns_per_buffer L) dvd image_width (configM s')
       \<and> (0 \<le> image_width config \<longrightarrow>
            image_width (configM s') = round_down_to_multiple (columns_per_buffer L) (image_width config)
            \<and> image_width (configM s') \<le> image_width config
            \<and> image_width config < image_width (configM s') + int (columns_per_buffer L))
       \<and> (image_width config < 0 \<longrightarrow>
            image_width (configM s') = - round_down_to_multiple (columns_per_buffer L) (- image_width config))
       \<and> (columns_per_buffer L = 16 \<and> image_width config = 1000 \<longrightarrow> image_width (configM s') = 992)"
proof -
  let ?n = "int (columns_per_buffer L)"
  let ?w = "image_width config"
  note c = ConfigCb_Inr[OF assms]
  have n: "0 < ?n" using c(1) by simp
  have w': "image_width (configM s') = (?w sdiv ?n) * ?n"
    using c(2) by (simp add: normalize_fields)
  have a: "fless (max_range config) (min_range config) \<longrightarrow>
            min_range (configM s') = max_range config \<and> max_range (configM s') = max_range config"
    using c(2) by (simp add: normalize_fields std_min_def)
  have b: "?n dvd image_width (configM s')" by (simp add: w')
  have p: "0 \<le> ?w \<longrightarrow> image_width (configM s') = round_down_to_multiple (columns_per_buffer L) ?w
            \<and> image_width (configM s') \<le> ?w \<and> ?w < image_width (configM s') + ?n"
  proof
    assume "0 \<le> ?w"
    then have e: "image_width (configM s') = (?w div ?n) * ?n"
      using n by (simp add: w' sdiv_nonneg)
    have "?w = (?w div ?n) * ?n + ?w mod ?n" by simp
    moreover have "0 \<le> ?w mod ?n" "?w mod ?n < ?n" using n by simp_all
    ultimately have "(?w div ?n) * ?n \<le> ?w" "?w < (?w div ?n) * ?n + ?n" by linarith+
    then show "image_width (configM s') = round_down_to_multiple (columns_per_buffer L) ?w
            \<and> image_width (configM s') \<le> ?w \<and> ?w < image_width (configM s') + ?n"
      using e by (simp add: round_down_to_multiple_def)
  qed
  have q: "?w < 0 \<longrightarrow> image_width (configM s') = - round_down_to_multiple (columns_per_buffer L) (- ?w)"
    using n by (simp add: w' sdiv_neg round_down_to_multiple_def)
  have r: "columns_per_buffer L = 16 \<and> ?w = 1000 \<longrightarrow> image_width (configM s') = 992"
    by (auto simp: w' sdiv_nonneg)
  from a b p q r show ?thesis by blast
qed

text \<open>The update of a configuration with ranges 5 > 3 and width 1000, 16 columns per packet.\<close>

theorem ConfigCb_normalizes_witness:
  "ConfigCb (demo_layout\<lparr>columns_per_buffer := 16\<rparr>) demo_decoder
      (demo_config\<lparr>min_range := Fin 5, max_range := Fin 3, image_width := 1000\<rparr>)
     = Inr (demo_decoder\<lparr>configM := demo_config\<lparr>min_range := Fin 3, max_range := Fin 3, image_width := 992\<rparr>\<rparr>, None)
   \<and> fless (Fin 3) (Fin 5)
   \<and> round_down_to_multiple 16 1000 = 992"
proof -
  have e: "ConfigCb (demo_layout\<lparr>columns_per_buffer := 16\<rparr>) demo_decoder
      (demo_config\<lparr>min_range := Fin 5, max_range := Fin 3, image_width := 1000\<rparr>)
     = Inr (demo_decoder\<lparr>configM := demo_config\<lparr>min_range := Fin 3, max_range := Fin 3, image_width := 992\<rparr>\<rparr>, None)"
    by (simp add: ConfigCb_def normalize_def std_min_def demo_decoder_def demo_config_def
        demo_layout_def Let_def sdiv_nonneg)
  from ConfigCb_normalizes[OF e] show ?thesis
    using e by (simp add: demo_layout_def demo_config_def)
qed

text \<open>
  Claim C8 as stated fails for a negative width: with 16 columns per packet the width -20
  is stored as -16 (and the update ends with the exception of \<^verbatim>\<open>reserve\<close>), while
  rounding down to the nearest multiple gives -32.
\<close>

theorem ConfigCb_round_down_counterexample:
  "ConfigCb demo_layout16 demo_decoder (demo_config\<lparr>image_width := - 20\<rparr>)
     = Inr (demo_decoder\<lparr>configM := demo_config\<lparr>image_width := - 16\<rparr>\<rparr>, Some length_error)
   \<and> round_down_to_multiple (columns_per_buffer demo_layout16) (- 20) = - 32"
  by (simp add: ConfigCb_def normalize_def std_min_def demo_decoder_def demo_config_def
        demo_layout16_def demo_layout_def Let_def sdiv_neg round_down_to_multiple_def)


subsection \<open>The range bounds and the projection\<close>

text \<open>
  Claim C9. The projector receives of the configuration only the \<open>organized\<close> flag, so
  its cloud is the same for configurations that differ in \<open>min_range\<close> and \<open>max_range\<close>
  only; a packet arrival under such a changed configuration publishes the same image and
  cloud and differs in the stored ranges alone; and every cell of a published image whose
  range is not NaN has its projected point in the published cloud, whatever the ranges.
\<close>

theorem projection_ignores_range_bounds:
  "ToCloud img altitude_angles (organized (config\<lparr>min_range := a, max_range := b\<rparr>))
     = ToCloud img altitude_angles (organized config)
   \<and> LidarPacketCb L (s\<lparr>configM := (configM s)\<lparr>min_range := a, max_range := b\<rparr>\<rparr>) p =
       map_option (map_sum id (\<lambda>so. ((fst so)\<lparr>configM := (configM (fst so))\<lparr>min_range := a, max_range := b\<rparr>\<rparr>, snd so)))
         (LidarPacketCb L s p)
   \<and> (\<forall>s' pub r c. LidarPacketCb L s p = Some (Inr (s', Some pub))
          \<and> r < rows (image_msg pub) \<and> c < cols (image_msg pub)
          \<and> \<not> isnan (fst (at_get (image_msg pub) r c)) \<longrightarrow>
          project (beam_altitude_angles (infoM s) ! r) (at_get (image_msg pub) r c)
            \<in> set (points (cloud_msg pub)))"
proof -
  have "\<forall>s' pub r c. LidarPacketCb L s p = Some (Inr (s', Some pub))
          \<and> r < rows (image_msg pub) \<and> c < cols (image_msg pub)
          \<and> \<not> isnan (fst (at_get (image_msg pub) r c)) \<longrightarrow>
          project (beam_altitude_angles (infoM s) ! r) (at_get (image_msg pub) r c)
            \<in> set (points (cloud_msg pub))"
  proof (intro allI impI)
    fix s' pub r c
    assume h: "LidarPacketCb L s p = Some (Inr (s', Some pub))
          \<and> r < rows (image_msg pub) \<and> c < cols (image_msg pub)
          \<and> \<not> isnan (fst (at_get (image_msg pub) r c))"
    then have t: "ToCloud (image_msg pub) (beam_altitude_angles (infoM s)) (organized (configM s))
        = Inr (cloud_msg pub)"
      by (auto simp: LidarPacketCb_def Let_def split: if_splits option.splits sum.splits)
    have l: "rows (image_msg pub) \<le> length (beam_altitude_angles (infoM s))"
    proof (rule ccontr)
      assume "\<not> rows (image_msg pub) \<le> length (beam_altitude_angles (infoM s))"
      then have "length (beam_altitude_angles (infoM s)) \<in> set [0..<rows (image_msg pub)]" by simp
      then have "\<exists>e. cloud_rows (image_msg pub) (beam_altitude_angles (infoM s))
          (organized (configM s)) [0..<rows (image_msg pub)] [] = Inl e"
        by (rule cloud_rows_fault)
      with t show False by (auto simp: ToCloud_def)
    qed
    from ToCloud_cell[OF l, of r c "organized (configM s)"] h t
    show "project (beam_altitude_angles (infoM s) ! r) (at_get (image_msg pub) r c)
            \<in> set (points (cloud_msg pub))"
      by auto
  qed
  then show ?thesis by (simp add: LidarPacketCb_ranges)
qed

text \<open>The arrival that completes a sweep of four columns; the cell at row 0, column 0.\<close>

theorem projection_ignores_range_bounds_witness:
  "\<exists>s' pub. LidarPacketCb demo_layout demo_decoder1 demo_packet = Some (Inr (s', Some pub))
      \<and> 0 < rows (image_msg pub) \<and> 0 < cols (image_msg pub)
      \<and> \<not> isnan (fst (at_get (image_msg pub) 0 0))
      \<and> project (beam_altitude_angles (infoM demo_decoder1) ! 0) (at_get (image_msg pub) 0 0)
            \<in> set (points (cloud_msg pub))"
proof -
  have e: "\<not> size_less_int (Suc (length (bufferM demo_decoder1)) * columns_per_buffer demo_layout)
             (image_width (configM demo_decoder1))"
    by (simp add: size_less_int_def demo_decoder1_def demo_decoder_def demo_config_def demo_accessors)
  have so: "sensor_ok demo_layout (infoM demo_decoder1)"
    by (simp add: sensor_ok_def demo_decoder1_def demo_decoder_def demo_info_def demo_accessors)
  have pk: "packets_ok demo_layout (bufferM demo_decoder1 @ [demo_packet])"
    by (simp add: packets_ok_def demo_decoder1_def demo_decoder_def demo_packet_def demo_accessors)
  from LidarPacketCb_emits[OF e so pk] obtain img cloud where
    b: "build_image demo_layout (beam_azimuth_angles (infoM demo_decoder1))
          (bufferM demo_decoder1 @ [demo_packet]) = Some (Inr img)"
    and r: "rows img = pixels_per_column demo_layout"
      "cols img = Suc (length (bufferM demo_decoder1)) * columns_per_buffer demo_layout"
    and l: "LidarPacketCb demo_layout demo_decoder1 demo_packet =
        Some (Inr (demo_decoder1\<lparr>bufferM := []\<rparr>,
          Some \<lparr>image_msg = img,
                cinfo_msg = \<lparr>cinfo_height = rows img, cinfo_width = cols img,
                              cinfo_D = beam_altitude_angles (infoM demo_decoder1)\<rparr>,
                cloud_msg = cloud\<rparr>))"
    by blast
  have a: "pixels_per_column demo_layout \<le> 255"
    "pixels_per_column demo_layout \<le> length (beam_azimuth_angles (infoM demo_decoder1))"
    "0 < columns_per_buffer demo_layout"
    "\<forall>q\<in>set (bufferM demo_decoder1 @ [demo_packet]). packet_bytes demo_layout \<le> length q"
    using so pk by (simp_all add: sensor_ok_def packets_ok_def list_all_iff)
  have v: "cell_valid demo_layout (bufferM demo_decoder1 @ [demo_packet]) 0"
    by (simp add: cell_valid_def column_valid_def demo_accessors demo_decoder1_def
        demo_decoder_def demo_packet_def first_byte_def)
  from build_image_spec[OF a] b have
    "\<forall>r c. c < length (bufferM demo_decoder1 @ [demo_packet]) * columns_per_buffer demo_layout \<longrightarrow>
       at_get img r c =
         (if r < pixels_per_column demo_layout \<and> cell_valid demo_layout (bufferM demo_decoder1 @ [demo_packet]) c
          then cell_value demo_layout (beam_azimuth_angles (infoM demo_decoder1))
                 (bufferM demo_decoder1 @ [demo_packet]) r c
          else Scalar kNaNF)"
    by auto
  from this[rule_format, of 0 0] v have
    g: "at_get img 0 0 = cell_value demo_layout (beam_azimuth_angles (infoM demo_decoder1))
                 (bufferM demo_decoder1 @ [demo_packet]) 0 0"
    by (simp add: demo_accessors demo_decoder1_def demo_decoder_def)
  have n: "\<not> isnan (fst (at_get img 0 0))" unfolding g by (rule cell_value_not_nan)
  have p: "0 < rows img" "0 < cols img" using r by (simp_all add: demo_accessors)
  from projection_ignores_range_bounds[where L = demo_layout and s = demo_decoder1 and p = demo_packet]
  have "\<forall>s' pub r c. LidarPacketCb demo_layout demo_decoder1 demo_packet = Some (Inr (s', Some pub))
          \<and> r < rows (image_msg pub) \<and> c < cols (image_msg pub)
          \<and> \<not> isnan (fst (at_get (image_msg pub) r c)) \<longrightarrow>
          project (beam_altitude_angles (infoM demo_decoder1) ! r) (at_get (image_msg pub) r c)
            \<in> set (points (cloud_msg pub))"
    by blast
  from this[rule_format, of "demo_decoder1\<lparr>bufferM := []\<rparr>" _ 0 0] l n p
  show ?thesis by auto
qed


subsection \<open>The width of published sweeps\<close>

text \<open>
  Claim C10. A decoder with an empty buffer and a stored width that is a non-negative
  multiple of \<open>columns_per_buffer\<close> satisfies the invariant \<open>sweep_inv\<close>; every
  configuration update that returns establishes it and every run of callbacks keeps it.
  Under the invariant and a positive width, a published image has exactly \<open>image_width\<close>
  columns and leaves the buffer empty, and after any run of packet arrivals all published
  images have exactly \<open>image_width\<close> columns and the buffered columns are fewer than
  \<open>image_width\<close>. Under the invariant and width 0, every arriving full-size packet is
  published at once as a sweep of \<open>columns_per_buffer\<close> columns.
\<close>

theorem sweep_width_invariant:
  "(bufferM s = [] \<and> 0 \<le> image_width (configM s)
      \<and> int (columns_per_buffer L) dvd image_width (configM s) \<longrightarrow> sweep_inv L s)
   \<and> (\<forall>s' e. ConfigCb L s config = Inr (s', e) \<longrightarrow> sweep_inv L s')
   \<and> (\<forall>s' pubs. sweep_inv L s \<and> run L s evs = Some (Inr (s', pubs)) \<longrightarrow> sweep_inv L s')
   \<and> (\<forall>s' pub. sweep_inv L s \<and> 0 < image_width (configM s)
          \<and> LidarPacketCb L s p = Some (Inr (s', Some pub)) \<longrightarrow>
          int (cols (image_msg pub)) = image_width (configM s) \<and> bufferM s' = [])
   \<and> (\<forall>s' pubs. sweep_inv L s \<and> 0 < image_width (configM s)
          \<and> run L s (map Packet ps) = Some (Inr (s', pubs)) \<longrightarrow>
          list_all (\<lambda>pub. int (cols (image_msg pub)) = image_width (configM s)) pubs
          \<and> int (length (bufferM s') * columns_per_buffer L) < image_width (configM s))
   \<and> (sweep_inv L s \<and> image_width (configM s) = 0
          \<and> sensor_ok L (infoM s) \<and> packets_ok L [p] \<longrightarrow>
          (\<exists>pub. LidarPacketCb L s p = Some (Inr (s, Some pub))
              \<and> cols (image_msg pub) = columns_per_buffer L))"
proof -
  have A: "bufferM s = [] \<and> 0 \<le> image_width (configM s)
      \<and> int (columns_per_buffer L) dvd image_width (configM s) \<longrightarrow> sweep_inv L s"
    by (auto simp: sweep_inv_def)
  have B: "\<forall>s' e. ConfigCb L s config = Inr (s', e) \<longrightarrow> sweep_inv L s'"
    using ConfigCb_inv by blast
  have C: "\<forall>s' pubs. sweep_inv L s \<and> run L s evs = Some (Inr (s', pubs)) \<longrightarrow> sweep_inv L s'"
    using run_inv by blast
  have D: "\<forall>s' pub. sweep_inv L s \<and> 0 < image_width (configM s)
          \<and> LidarPacketCb L s p = Some (Inr (s', Some pub)) \<longrightarrow>
          int (cols (image_msg pub)) = image_width (configM s) \<and> bufferM s' = []"
  proof (intro allI impI)
    fix s' pub
    assume h: "sweep_inv L s \<and> 0 < image_width (configM s)
          \<and> LidarPacketCb L s p = Some (Inr (s', Some pub))"
    then have l: "LidarPacketCb L s p = Some (Inr (s', Some pub))" by simp
    from LidarPacketCb_cases[OF l] have "bufferM s' = []" by auto
    moreover from h emitted_width[OF _ _ l]
    have "int (cols (image_msg pub)) = image_width (configM s)" by simp
    ultimately show "int (cols (image_msg pub)) = image_width (configM s) \<and> bufferM s' = []"
      by simp
  qed
  have E: "\<forall>s' pubs. sweep_inv L s \<and> 0 < image_width (configM s)
          \<and> run L s (map Packet ps) = Some (Inr (s', pubs)) \<longrightarrow>
          list_all (\<lambda>pub. int (cols (image_msg pub)) = image_width (configM s)) pubs
          \<and> int (length (bufferM s') * columns_per_buffer L) < image_width (configM s)"
  proof (intro allI impI)
    fix s' pubs
    assume h: "sweep_inv L s \<and> 0 < image_width (configM s)
          \<and> run L s (map Packet ps) = Some (Inr (s', pubs))"
    then have i: "sweep_inv L s" and w: "0 < image_width (configM s)"
      and r: "run L s (map Packet ps) = Some (Inr (s', pubs))"
      by simp_all
    from run_inv[OF i r] run_packets_config[OF r] w
    have "int (length (bufferM s') * columns_per_buffer L) < image_width (configM s)"
      by (simp add: sweep_inv_def)
    with run_packets_width[OF i w r]
    show "list_all (\<lambda>pub. int (cols (image_msg pub)) = image_width (configM s)) pubs
          \<and> int (length (bufferM s') * columns_per_buffer L) < image_width (configM s)"
      by simp
  qed
  have F: "sweep_inv L s \<and> image_width (configM s) = 0
          \<and> sensor_ok L (infoM s) \<and> packets_ok L [p] \<longrightarrow>
          (\<exists>pub. LidarPacketCb L s p = Some (Inr (s, Some pub))
              \<and> cols (image_msg pub) = columns_per_buffer L)"
    using zero_width_emits by blast
  from A B C D E F show ?thesis by blast
qed

text \<open>
  Two packets complete a sweep of four columns, two columns per packet; under width 0
  the first packet is published as a sweep of two columns.
\<close>

theorem sweep_width_invariant_witness:
  "bufferM demo_decoder = [] \<and> 0 < image_width (configM demo_decoder)
   \<and> int (columns_per_buffer demo_layout) dvd image_width (configM demo_decoder)
   \<and> sweep_inv demo_layout demo_decoder
   \<and> (\<exists>pub. run demo_layout demo_decoder (map Packet [demo_packet, demo_packet])
               = Some (Inr (demo_decoder, [pub]))
          \<and> int (cols (image_msg pub)) = 4)
   \<and> sweep_inv demo_layout demo_decoder_zero \<and> image_width (configM demo_decoder_zero) = 0
   \<and> sensor_ok demo_layout (infoM demo_decoder_zero) \<and> packets_ok demo_layout [demo_packet]
   \<and> (\<exists>pub. LidarPacketCb demo_layout demo_decoder_zero demo_packet
               = Some (Inr (demo_decoder_zero, Some pub))
          \<and> cols (image_msg pub) = 2)"
proof -
  note T = sweep_width_invariant[where L = demo_layout and s = demo_decoder
      and ps = "[demo_packet, demo_packet]" and p = demo_packet and config = demo_config and evs = "[]"]
  note Z = sweep_width_invariant[where L = demo_layout and s = demo_decoder_zero
      and ps = "[]" and p = demo_packet and config = demo_config and evs = "[]"]
  have a: "bufferM demo_decoder = []" "0 < image_width (configM demo_decoder)"
    "image_width (configM demo_decoder) = 4"
    "int (columns_per_buffer demo_layout) dvd image_width (configM demo_decoder)"
    by (simp_all add: demo_decoder_def demo_config_def demo_accessors)
  from T a have i: "sweep_inv demo_layout demo_decoder" by simp
  have l1: "LidarPacketCb demo_layout demo_decoder demo_packet = Some (Inr (demo_decoder1, None))"
    using LidarPacketCb_accumulates[of demo_decoder demo_layout demo_packet]
    by (simp add: size_less_int_def demo_decoder1_def demo_decoder_def demo_config_def demo_accessors)
  have e: "\<not> size_less_int (Suc (length (bufferM demo_decoder1)) * columns_per_buffer demo_layout)
             (image_width (configM demo_decoder1))"
    by (simp add: size_less_int_def demo_decoder1_def demo_decoder_def demo_config_def demo_accessors)
  have so: "sensor_ok demo_layout (infoM demo_decoder1)"
    by (simp add: sensor_ok_def demo_decoder1_def demo_decoder_def demo_info_def demo_accessors)
  have pk: "packets_ok demo_layout (bufferM demo_decoder1 @ [demo_packet])"
    by (simp add: packets_ok_def demo_decoder1_def demo_decoder_def demo_packet_def demo_accessors)
  have d: "demo_decoder1\<lparr>bufferM := []\<rparr> = demo_decoder"
    by (simp add: demo_decoder1_def demo_decoder_def)
  from LidarPacketCb_emits[OF e so pk] d obtain pub where
    l2: "LidarPacketCb demo_layout demo_decoder1 demo_packet = Some (Inr (demo_decoder, Some pub))"
    by auto
  have r: "run demo_layout demo_decoder (map Packet [demo_packet, demo_packet])
               = Some (Inr (demo_decoder, [pub]))"
    by (simp add: l1 l2)
  from T i a(2) r have "list_all (\<lambda>pub. int (cols (image_msg pub)) = image_width (configM demo_decoder)) [pub]"
    by blast
  then have c: "int (cols (image_msg pub)) = 4" using a(3) by simp
  have z: "bufferM demo_decoder_zero = []" "image_width (configM demo_decoder_zero) = 0"
    "int (columns_per_buffer demo_layout) dvd image_width (configM demo_decoder_zero)"
    "sensor_ok demo_layout (infoM demo_decoder_zero)" "packets_ok demo_layout [demo_packet]"
    by (simp_all add: demo_decoder_zero_def demo_decoder_def demo_config_def demo_accessors
        sensor_ok_def packets_ok_def demo_info_def demo_packet_def)
  from Z z have iz: "sweep_inv demo_layout demo_decoder_zero" by simp
  from Z iz z have "\<exists>pub. LidarPacketCb demo_layout demo_decoder_zero demo_packet
               = Some (Inr (demo_decoder_zero, Some pub))
          \<and> cols (image_msg pub) = columns_per_buffer demo_layout"
    by blast
  then have y: "\<exists>pub. LidarPacketCb demo_layout demo_decoder_zero demo_packet
               = Some (Inr (demo_decoder_zero, Some pub))
          \<and> cols (image_msg pub) = 2"
    by (simp add: demo_accessors)
  from a i r c iz z y show ?thesis by blast
qed

end
